theory Spec2Isabelle
  imports Main "HOL-Library.AList" "HOL-Library.Sublist" "HOL-Library.Char_ord"
    "HOL-Library.List_Lexorder"
begin

section \<open>The CXXRTL build driver of niar (src/niar/cxxrtl.py)\<close>

text \<open>
  The driver parses its command line (\<open>add_arguments\<close>), then \<open>main\<close> elaborates the
  design, registers build actions with a \<open>CommandRunner\<close> in three batches, each closed
  by \<open>cr.run()\<close>, writes a compilation database and finally runs the executable.
  The model makes the calls of \<open>main\<close> to its collaborators explicit as a list of events.
\<close>

subsection \<open>Errors raised by the driver\<close>

datatype error = RuntimeError string | AssertionError string | ValueError

subsection \<open>Paths (pathlib, POSIX flavour)\<close>

text \<open>
  A \<open>pathlib\<close> path is its root (\<open>''''\<close> for a relative path, \<open>''/''\<close> or \<open>''//''\<close>) and the
  list of its components; two paths are equal when both agree. Comparison is lexical:
  nothing is resolved against the file system, and \<open>..\<close> is a component like any other.
\<close>

record path =
  p_root :: string
  p_tail :: "string list"

fun split_sep :: "string \<Rightarrow> string list" where
  "split_sep [] = [[]]"
| "split_sep (c # cs) =
     (if c = CHR ''/'' then [] # split_sep cs
      else (case split_sep cs of [] \<Rightarrow> [[c]] | w # ws \<Rightarrow> (c # w) # ws))"

definition parse_tail :: "string \<Rightarrow> string list" where
  "parse_tail s = filter (\<lambda>x. x \<noteq> [] \<and> x \<noteq> ''.'') (split_sep s)"

definition splitroot :: "string \<Rightarrow> string" where
  "splitroot s =
     (if take 1 s \<noteq> ''/'' then ''''
      else if take 1 (drop 1 s) \<noteq> ''/'' \<or> take 1 (drop 2 s) = ''/'' then ''/''
      else ''//'')"

definition parse_path :: "string \<Rightarrow> path" where
  "parse_path s = \<lparr>p_root = splitroot s, p_tail = parse_tail s\<rparr>"

text \<open>
  \<open>p / s\<close> and \<open>p.joinpath(s)\<close>: a segment that starts with the separator replaces the
  path, any other segment contributes its components.
\<close>

definition join1 :: "path \<Rightarrow> string \<Rightarrow> path" where
  "join1 p s = (if take 1 s = ''/'' then parse_path s else p\<lparr>p_tail := p_tail p @ parse_tail s\<rparr>)"

definition joinpath :: "path \<Rightarrow> string list \<Rightarrow> path" where
  "joinpath p segs = foldl join1 p segs"

fun str_join :: "string \<Rightarrow> string list \<Rightarrow> string" where
  "str_join sep [] = []"
| "str_join sep [x] = x"
| "str_join sep (x # y # ys) = x @ sep @ str_join sep (y # ys)"

definition str_path :: "path \<Rightarrow> string" where
  "str_path p =
     (if p_root p = [] \<and> p_tail p = [] then ''.'' else p_root p @ str_join ''/'' (p_tail p))"

definition is_absolute :: "path \<Rightarrow> bool" where
  "is_absolute p = (p_root p \<noteq> [])"

definition path_name :: "path \<Rightarrow> string" where
  "path_name p = (if p_tail p = [] then [] else last (p_tail p))"

fun rfind :: "char \<Rightarrow> string \<Rightarrow> nat option" where
  "rfind c [] = None"
| "rfind c (x # xs) =
     (case rfind c xs of Some i \<Rightarrow> Some (Suc i)
      | None \<Rightarrow> if x = c then Some 0 else None)"

text \<open>
  \<open>stem\<close>: the name without its last suffix. With \<open>i = name.rfind('.')\<close> the suffix is
  cut when \<open>0 < i < len(name) - 1\<close>; otherwise the stem is the whole name.
\<close>

definition path_stem :: "path \<Rightarrow> string" where
  "path_stem p =
     (let nm = path_name p in
      case rfind CHR ''.'' nm of
        None \<Rightarrow> nm
      | Some i \<Rightarrow> if 0 < i \<and> i + 1 < length nm then take i nm else nm)"

definition parents :: "path \<Rightarrow> path list" where
  "parents p = map (\<lambda>k. p\<lparr>p_tail := take k (p_tail p)\<rparr>) (rev [0..<length (p_tail p)])"

definition is_relative_to :: "path \<Rightarrow> path \<Rightarrow> bool" where
  "is_relative_to p other = (other = p \<or> other \<in> set (parents p))"

text \<open>
  \<open>p.relative_to(other)\<close> raises \<open>ValueError\<close> unless \<open>other\<close> is \<open>p\<close> or one of its
  parents, and otherwise returns the components of \<open>p\<close> below \<open>other\<close> as a relative path.
\<close>

definition relative_to :: "path \<Rightarrow> path \<Rightarrow> error + path" where
  "relative_to p other =
     (if is_relative_to p other
      then Inr \<lparr>p_root = [], p_tail = drop (length (p_tail other)) (p_tail p)\<rparr>
      else Inl ValueError)"

subsection \<open>\<open>_make_absolute\<close>\<close>

text \<open>
  \<open>Path.cwd()\<close> is read from the process; it is the parameter \<open>cwd\<close>. The \<open>ValueError\<close>
  of \<open>relative_to\<close> is caught and replaced by an \<open>AssertionError\<close>.
\<close>

definition make_absolute :: "path \<Rightarrow> path \<Rightarrow> error + path" where
  "make_absolute cwd p =
     (if is_absolute p then
        (case relative_to p cwd of
           Inl e \<Rightarrow> Inl (AssertionError ''path must be relative to cwd for builtin-yosys to access it'')
         | Inr q \<Rightarrow> Inr q)
      else Inr p)"

text \<open>A path lies under a directory when the directory's components begin its own.\<close>

definition located_under :: "path \<Rightarrow> path \<Rightarrow> bool" where
  "located_under p d = (p_root p = p_root d \<and> prefix (p_tail d) (p_tail p))"

subsection \<open>Command-line options (\<open>add_arguments\<close>)\<close>

datatype Optimize = none | rtl | app | both

definition Optimize_str :: "Optimize \<Rightarrow> string" where
  "Optimize_str x = (case x of none \<Rightarrow> ''none'' | rtl \<Rightarrow> ''rtl'' | app \<Rightarrow> ''app'' | both \<Rightarrow> ''both'')"

definition opt_rtl :: "Optimize \<Rightarrow> bool" where
  "opt_rtl x = (x \<in> set [rtl, both])"

definition opt_app :: "Optimize \<Rightarrow> bool" where
  "opt_app x = (x \<in> set [app, both])"

text \<open>
  One \<open>parser.add_argument\<close> call: the option strings and the keyword arguments the
  driver passes. A keyword that is not passed has argparse's default (\<open>action\<close> is
  \<open>store\<close>, \<open>required\<close> is false, no \<open>choices\<close>, no \<open>default\<close>).
\<close>

record argument =
  flags :: "string list"
  arg_action :: string
  choices :: "string list option"
  required :: bool
  default :: "string option"
  help_text :: string

record parser =
  defaults :: "(string \<times> string) list"
  arguments :: "argument list"

text \<open>
  Of the project object the driver reads its name, its root directory and the list of
  CXXRTL target classes (here their \<open>__name__\<close>s; the attribute may be \<open>None\<close>).
\<close>

record project =
  name :: string
  origin :: path
  cxxrtl_targets :: "string list option"

text \<open>\<open>np.cxxrtl_targets or []\<close>: \<open>None\<close> and the empty list both give the empty list.\<close>

definition defined_targets :: "project \<Rightarrow> string list" where
  "defined_targets np = (case cxxrtl_targets np of None \<Rightarrow> [] | Some ts \<Rightarrow> ts)"

definition target_names :: "project \<Rightarrow> string list" where
  "target_names np = sort (defined_targets np)"

definition target_argument :: "string \<Rightarrow> string list \<Rightarrow> argument" where
  "target_argument first rest =
     \<lparr>flags = [''-t'', ''--target''], arg_action = ''store'',
      choices = Some (first # rest),
      required = (rest \<noteq> []),
      default = (if rest = [] then Some first else None),
      help_text = ''which CXXRTL target to build''\<rparr>"

definition common_arguments :: "argument list" where
  "common_arguments =
     [\<lparr>flags = [''-c'', ''--compile''], arg_action = ''store_true'', choices = None,
       required = False, default = None, help_text = ''compile only; don't run''\<rparr>,
      \<lparr>flags = [''-O'', ''--optimize''], arg_action = ''store'',
       choices = Some (map Optimize_str [none, rtl, app, both]),
       required = False, default = Some (Optimize_str rtl),
       help_text = ''build with optimizations (default: rtl)''\<rparr>,
      \<lparr>flags = [''-d'', ''--debug''], arg_action = ''store_true'', choices = None,
       required = False, default = None,
       help_text = ''generate source-level debug information''\<rparr>,
      \<lparr>flags = [''-v'', ''--vcd''], arg_action = ''store'', choices = None,
       required = False, default = None, help_text = ''output a VCD file''\<rparr>,
      \<lparr>flags = [''-f'', ''--force''], arg_action = ''store_true'', choices = None,
       required = False, default = None, help_text = ''don't use cached compilations''\<rparr>]"

definition add_arguments :: "project \<Rightarrow> parser \<Rightarrow> error + parser" where
  "add_arguments np parser =
     (let p0 = parser\<lparr>defaults := AList.update ''func'' ''main'' (defaults parser)\<rparr> in
      case target_names np of
        [] \<Rightarrow> Inl (RuntimeError ''no cxxrtl targets defined'')
      | first # rest \<Rightarrow>
          Inr (p0\<lparr>arguments := arguments p0 @ target_argument first rest # common_arguments\<rparr>))"

text \<open>The parsed options \<open>main\<close> reads.\<close>

record args =
  target :: string
  compile :: bool
  optimize :: Optimize
  debug :: bool
  vcd :: "string option"
  force :: bool

subsection \<open>What \<open>main\<close> reads from its surroundings\<close>

text \<open>
  \<open>platform\<close> is the target \<open>np.cxxrtl_target_by_name(args.target)\<close> returns;
  \<open>default_clk_frequency\<close> is the value of \<open>int(platform.default_clk_frequency)\<close>.
  The three file lists are what \<open>np.path("cxxrtl").glob\<close> returns for \<open>**/*.cc\<close>,
  \<open>**/*.h\<close> and \<open>**/*.zig\<close>. \<open>cr_compile_commands\<close> are the items of
  \<open>cr.compile_commands\<close> when the compilation database is written: the dictionary is
  kept by \<open>CommandRunner\<close>, whose code is not part of the driver.
\<close>

record platform =
  uses_zig :: bool
  default_clk_frequency :: int

record env =
  cwd :: path
  platform :: platform
  yosys_data_dir :: path
  rtlil_text :: string
  cc_files :: "path list"
  h_files :: "path list"
  zig_files :: "path list"
  cr_compile_commands :: "(string \<times> string list) list"

text \<open>
  Modelled from the spec: the path accessor of class \<open>Project\<close> (niar/project.py) is
  not among the sources. The spec calls \<open>np.path()\<close> the orchestrator's working root (the
  project path); \<open>np.path(*cs)\<close> is that root joined with \<open>cs\<close>, and
  \<open>np.path.build(*cs)\<close> is \<open>np.path("build", *cs)\<close>, the directory \<open>main\<close> passes to the
  compiler as include directory of the generated header.
\<close>

definition np_path :: "project \<Rightarrow> string list \<Rightarrow> path" where
  "np_path np cs = joinpath (origin np) cs"

text \<open>
  Modelled from the spec: \<open>np.path.build(*cs)\<close> of the same absent class, the path
  \<open>cs\<close> below the directory \<open>build\<close> of the working root.
\<close>

definition np_path_build :: "project \<Rightarrow> string list \<Rightarrow> path" where
  "np_path_build np cs = np_path np (''build'' # cs)"

subsection \<open>Decimal numbers in format strings\<close>

fun str_nat :: "nat \<Rightarrow> string" where
  "str_nat n = (if n < 10 then [''0123456789'' ! n] else str_nat (n div 10) @ [''0123456789'' ! (n mod 10)])"

declare str_nat.simps [simp del]

definition str_int :: "int \<Rightarrow> string" where
  "str_int i = (if i < 0 then ''-'' @ str_nat (nat (- i)) else str_nat (nat i))"

subsection \<open>The calls \<open>main\<close> makes\<close>

text \<open>
  Arguments and file names are Python values that are either a \<open>str\<close> or a \<open>Path\<close>; a
  \<open>Path\<close> never equals a \<open>str\<close>.
\<close>

datatype pathlike = Str string | Pth path

text \<open>
  The first argument of \<open>cr.add_process\<close> is a callable (here the closure
  \<open>rtlil_to_cc\<close>, which runs yosys with the given arguments) or an argument vector.
\<close>

datatype process = Callable string "pathlike list" | Command "pathlike list"

record action =
  process :: process
  infs :: "pathlike list"
  outf :: pathlike
  chdir :: "string option"

datatype json = JString string | JArray "json list" | JObject "(string \<times> json) list"

datatype event =
    FindYosys
  | Makedirs path
  | NewRunner bool
  | WriteFile path string
  | AddProcess action
  | Run
  | JsonDump path json
  | Copy pathlike path
  | RunCmd "pathlike list" string

definition CXXFLAGS :: "string list" where
  "CXXFLAGS = [''-std=c++17'', ''-g'', ''-pedantic'', ''-Wall'', ''-Wextra'',
     ''-Wno-zero-length-array'', ''-Wno-unused-parameter'']"

definition il_path :: "project \<Rightarrow> path" where
  "il_path np = np_path_build np [name np @ ''.il'']"

definition cxxrtl_cc_path :: "project \<Rightarrow> path" where
  "cxxrtl_cc_path np = np_path_build np [name np @ ''.cc'']"

definition yosys_script :: "path \<Rightarrow> path \<Rightarrow> string" where
  "yosys_script il cc =
     ''read_rtlil '' @ str_path il @ [CHR 0x0A]
     @ ''write_cxxrtl -header '' @ str_path cc @ [CHR 0x0A]"

definition rtlil_to_cc :: "path \<Rightarrow> process" where
  "rtlil_to_cc yosys_script_path = Callable ''rtlil_to_cc'' [Str ''-q'', Pth yosys_script_path]"

definition rtlil_action :: "project \<Rightarrow> path \<Rightarrow> action" where
  "rtlil_action np yosys_script_path =
     \<lparr>process = rtlil_to_cc yosys_script_path,
      infs = [Pth (il_path np), Pth yosys_script_path],
      outf = Pth (cxxrtl_cc_path np), chdir = None\<rparr>"

text \<open>
  The elaboration block: the RTLIL text and the yosys script are written, the
  conversion is registered and the first batch is run. \<open>black_boxes\<close> is empty, so the
  script has two lines.
\<close>

definition elaboration :: "project \<Rightarrow> env \<Rightarrow> error + event list" where
  "elaboration np ev =
     (case make_absolute (cwd ev) (np_path_build np [name np @ ''-cxxrtl.ys'']) of
        Inl e \<Rightarrow> Inl e
      | Inr yosys_script_path \<Rightarrow>
     (case make_absolute (cwd ev) (il_path np) of
        Inl e \<Rightarrow> Inl e
      | Inr il_rel \<Rightarrow>
     (case make_absolute (cwd ev) (cxxrtl_cc_path np) of
        Inl e \<Rightarrow> Inl e
      | Inr cc_rel \<Rightarrow>
          Inr [WriteFile (il_path np) (rtlil_text ev),
               WriteFile yosys_script_path (yosys_script il_rel cc_rel),
               AddProcess (rtlil_action np yosys_script_path),
               Run])))"

text \<open>
  \<open>cc_odep_paths\<close> is a dictionary from source file to object file and dependencies:
  an assignment to a key that is present replaces its value in place, a new key is
  appended.
\<close>

definition cc_odep_paths :: "project \<Rightarrow> env \<Rightarrow> (path \<times> path \<times> path list) list" where
  "cc_odep_paths np ev =
     foldl (\<lambda>d p. AList.update p (np_path_build np [path_stem p @ ''.o''], h_files ev) d)
       [(cxxrtl_cc_path np, (np_path_build np [name np @ ''.o''], []))]
       (cc_files ev)"

definition cxxflags :: "args \<Rightarrow> env \<Rightarrow> string list" where
  "cxxflags a ev =
     CXXFLAGS
     @ [''-DCLOCK_HZ='' @ str_int (default_clk_frequency (platform ev))]
     @ (if opt_rtl (optimize a) then [''-O3''] else [''-O0''])
     @ (if debug a then [''-g''] else [])
     @ (if uses_zig (platform ev)
        then [''-DCXXRTL_INCLUDE_CAPI_IMPL'', ''-DCXXRTL_INCLUDE_VCD_CAPI_IMPL'']
        else [])"

definition compile_cmd :: "project \<Rightarrow> args \<Rightarrow> env \<Rightarrow> path \<Rightarrow> path \<Rightarrow> pathlike list" where
  "compile_cmd np a ev cc_path o_path =
     (if uses_zig (platform ev) then [Str ''zig''] else [])
     @ [Str ''c++'']
     @ map Str (cxxflags a ev)
     @ [Str (''-I'' @ str_path (np_path np [''build''])),
        Str (''-I'' @ str_path
               (joinpath (yosys_data_dir ev) [''include'', ''backends'', ''cxxrtl'', ''runtime''])),
        Str ''-c'', Pth cc_path, Str ''-o'', Pth o_path]"

definition compile_action :: "project \<Rightarrow> args \<Rightarrow> env \<Rightarrow> path \<times> path \<times> path list \<Rightarrow> action" where
  "compile_action np a ev item =
     (case item of (cc_path, o_path, dep_paths) \<Rightarrow>
        \<lparr>process = Command (compile_cmd np a ev cc_path o_path),
         infs = Pth cc_path # map Pth dep_paths,
         outf = Pth o_path, chdir = None\<rparr>)"

definition compile_actions :: "project \<Rightarrow> args \<Rightarrow> env \<Rightarrow> action list" where
  "compile_actions np a ev = map (compile_action np a ev) (cc_odep_paths np ev)"

text \<open>The list \<open>json.dump\<close> receives: one dictionary per item of \<open>cr.compile_commands\<close>.\<close>

definition compile_commands_json :: "project \<Rightarrow> (string \<times> string list) list \<Rightarrow> json" where
  "compile_commands_json np items =
     JArray (map (\<lambda>(file, arguments).
                    JObject [(''directory'', JString (str_path (np_path np []))),
                             (''file'', JString file),
                             (''arguments'', JArray (map JString arguments))])
                 items)"

definition compilation :: "project \<Rightarrow> args \<Rightarrow> env \<Rightarrow> event list" where
  "compilation np a ev =
     map AddProcess (compile_actions np a ev)
     @ [JsonDump (np_path_build np [''compile_commands.json''])
          (compile_commands_json np (cr_compile_commands ev)),
        Run]"

definition exe_o_path :: "project \<Rightarrow> path" where
  "exe_o_path np = np_path_build np [''cxxrtl'']"

definition cc_o_paths :: "project \<Rightarrow> env \<Rightarrow> path list" where
  "cc_o_paths np ev = map (\<lambda>(cc_path, o_path, dep_paths). o_path) (cc_odep_paths np ev)"

fun relative_all :: "path \<Rightarrow> path list \<Rightarrow> error + path list" where
  "relative_all d [] = Inr []"
| "relative_all d (p # ps) =
     (case relative_to p d of
        Inl e \<Rightarrow> Inl e
      | Inr r \<Rightarrow> (case relative_all d ps of Inl e \<Rightarrow> Inl e | Inr rs \<Rightarrow> Inr (r # rs)))"

definition zig_cmd :: "project \<Rightarrow> args \<Rightarrow> env \<Rightarrow> path list \<Rightarrow> pathlike list" where
  "zig_cmd np a ev rels =
     [Str ''zig'', Str ''build'',
      Str (''-Dclock_hz='' @ str_int (default_clk_frequency (platform ev))),
      Str (''-Dyosys_data_dir='' @ str_path (yosys_data_dir ev))]
     @ map (\<lambda>r. Str (''-Dcxxrtl_o_path=../'' @ str_path r)) rels
     @ (if opt_app (optimize a) then [Str ''-Doptimize=ReleaseFast''] else [])"

definition zig_outf :: string where
  "zig_outf = ''cxxrtl/zig-out/bin/cxxrtl''"

definition link_action :: "project \<Rightarrow> args \<Rightarrow> env \<Rightarrow> error + action" where
  "link_action np a ev =
     (if uses_zig (platform ev) then
        (case relative_all (np_path np []) (cc_o_paths np ev) of
           Inl e \<Rightarrow> Inl e
         | Inr rels \<Rightarrow>
             Inr \<lparr>process = Command (zig_cmd np a ev rels),
                  infs = map Pth (cc_o_paths np ev) @ map Pth (zig_files ev),
                  outf = Str zig_outf, chdir = Some ''cxxrtl''\<rparr>)
      else
        Inr \<lparr>process = Command ([Str ''c++''] @ map Str (cxxflags a ev)
                                 @ map Pth (cc_o_paths np ev)
                                 @ [Str ''-o'', Pth (exe_o_path np)]),
             infs = map Pth (cc_o_paths np ev),
             outf = Pth (exe_o_path np), chdir = None\<rparr>)"

definition linking :: "project \<Rightarrow> args \<Rightarrow> env \<Rightarrow> error + event list" where
  "linking np a ev =
     (case link_action np a ev of
        Inl e \<Rightarrow> Inl e
      | Inr l \<Rightarrow>
          Inr ([AddProcess l, Run]
               @ (if uses_zig (platform ev) then [Copy (Str zig_outf) (exe_o_path np)] else [])))"

text \<open>\<open>if args.vcd\<close> holds for a string that is given and not empty.\<close>

definition run_cmd_argv :: "project \<Rightarrow> args \<Rightarrow> pathlike list" where
  "run_cmd_argv np a =
     Pth (exe_o_path np)
     # (case vcd a of None \<Rightarrow> [] | Some v \<Rightarrow> if v = [] then [] else [Str ''--vcd'', Str v])"

definition running :: "project \<Rightarrow> args \<Rightarrow> event list" where
  "running np a = (if \<not> compile a then [RunCmd (run_cmd_argv np a) ''run''] else [])"

text \<open>
  \<open>main\<close>: the calls it makes, in order, when every call returns; \<open>Inl\<close> is the
  exception \<open>main\<close> itself raises (in \<open>_make_absolute\<close>, or in \<open>relative_to\<close> while the zig
  command is built). A failure inside a collaborator (a failed build step in
  \<open>cr.run()\<close>, say) ends the driver at that call.
\<close>

definition main :: "project \<Rightarrow> args \<Rightarrow> env \<Rightarrow> error + event list" where
  "main np a ev =
     (case elaboration np ev of
        Inl e \<Rightarrow> Inl e
      | Inr elaborated \<Rightarrow>
     (case linking np a ev of
        Inl e \<Rightarrow> Inl e
      | Inr linked \<Rightarrow>
          Inr ([FindYosys, Makedirs (np_path_build np []), NewRunner (force a)]
               @ elaborated @ compilation np a ev @ linked @ running np a)))"

subsection \<open>Batches\<close>

text \<open>
  The actions registered between two calls of \<open>cr.run()\<close> form a batch. \<open>batches\<close> lists
  the batches of a sequence of calls in order (the first argument collects the batch
  that is still open).
\<close>

fun batches :: "action list \<Rightarrow> event list \<Rightarrow> action list list" where
  "batches cur [] = (if cur = [] then [] else [cur])"
| "batches cur (AddProcess x # es) = batches (cur @ [x]) es"
| "batches cur (Run # es) = cur # batches [] es"
| "batches cur (e # es) = batches cur es"

text \<open>
  The staging discipline of a sequence of calls: whenever an input of a registered
  action is the output of another registered action, the producer is registered first
  and \<open>cr.run()\<close> is called between the two registrations.
\<close>

definition staging :: "event list \<Rightarrow> bool" where
  "staging tr =
     (\<forall>i j x y. i < length tr \<and> j < length tr \<and> i \<noteq> j
        \<and> tr ! i = AddProcess x \<and> tr ! j = AddProcess y \<and> outf y \<in> set (infs x)
        \<longrightarrow> (\<exists>k. j < k \<and> k < i \<and> tr ! k = Run))"

text \<open>
  The same, checked along the sequence: \<open>finished\<close> are the actions of the batches that
  have been run, \<open>pending\<close> the actions registered since the last \<open>cr.run()\<close>. When an
  action is registered, none of its inputs may be the output of a pending action, and
  its output may not be an input of any action registered before it.
\<close>

fun staged :: "action list \<Rightarrow> action list \<Rightarrow> event list \<Rightarrow> bool" where
  "staged finished pending [] = True"
| "staged finished pending (AddProcess x # es) =
     ((\<forall>y \<in> set pending. outf y \<notin> set (infs x))
      \<and> (\<forall>y \<in> set (finished @ pending). outf x \<notin> set (infs y))
      \<and> staged finished (pending @ [x]) es)"
| "staged finished pending (Run # es) = staged (finished @ pending) [] es"
| "staged finished pending (e # es) = staged finished pending es"


text \<open>
  What \<open>glob\<close> guarantees of its results: the name of a path returned for \<open>**/*.cc\<close>
  ends in \<open>.cc\<close>, and likewise for \<open>**/*.h\<close> and \<open>**/*.zig\<close>.
\<close>

definition glob_results :: "env \<Rightarrow> bool" where
  "glob_results ev =
     ((\<forall>p \<in> set (cc_files ev). suffix ''.cc'' (path_name p))
      \<and> (\<forall>p \<in> set (h_files ev). suffix ''.h'' (path_name p))
      \<and> (\<forall>p \<in> set (zig_files ev). suffix ''.zig'' (path_name p)))"

subsection \<open>Example inputs\<close>

text \<open>
  A project \<open>top\<close> in \<open>/proj\<close> with two C++ sources and a header below \<open>cxxrtl\<close>,
  built without zig from the project's root; and the same project when the two sources
  have the same name in different directories.
\<close>

definition example_project :: project where
  "example_project =
     \<lparr>name = ''top'', origin = \<lparr>p_root = ''/'', p_tail = [''proj'']\<rparr>,
      cxxrtl_targets = Some [''Sim'']\<rparr>"

definition example_args :: args where
  "example_args =
     \<lparr>target = ''Sim'', compile = False, optimize = rtl, debug = False, vcd = None,
      force = True\<rparr>"

definition example_env :: env where
  "example_env =
     \<lparr>cwd = \<lparr>p_root = ''/'', p_tail = [''proj'']\<rparr>,
      platform = \<lparr>uses_zig = False, default_clk_frequency = 1000000\<rparr>,
      yosys_data_dir = \<lparr>p_root = ''/'', p_tail = [''usr'', ''share'', ''yosys'']\<rparr>,
      rtlil_text = ''module top'',
      cc_files = [\<lparr>p_root = ''/'', p_tail = [''proj'', ''cxxrtl'', ''a.cc'']\<rparr>,
                  \<lparr>p_root = ''/'', p_tail = [''proj'', ''cxxrtl'', ''dir'', ''b.cc'']\<rparr>],
      h_files = [\<lparr>p_root = ''/'', p_tail = [''proj'', ''cxxrtl'', ''a.h'']\<rparr>],
      zig_files = [],
      cr_compile_commands =
        [(''a.cc'', [''c++'', ''-c'', ''a.cc'', ''-o'', ''a.o'']),
         (''b.cc'', [''c++'', ''-c'', ''b.cc'', ''-o'', ''b.o''])]\<rparr>"

definition same_stem_env :: env where
  "same_stem_env =
     example_env\<lparr>cc_files := [\<lparr>p_root = ''/'', p_tail = [''proj'', ''cxxrtl'', ''a.cc'']\<rparr>,
                              \<lparr>p_root = ''/'', p_tail = [''proj'', ''cxxrtl'', ''dir'', ''a.cc'']\<rparr>]\<rparr>"

section \<open>The command runner, as the specification describes it\<close>

text \<open>
  The driver hands its actions to \<open>CommandRunner\<close> (niar/cmdrunner.py), whose code is
  not among the sources. The definitions of this section follow the specification's
  description of it.
\<close>

subsection \<open>Files, actions and the run record\<close>

text \<open>
  Modelled from the spec: the file system as the orchestrator sees it (section 4.1). A
  path that exists has a modification time and a fingerprint (the modification
  timestamp, or a content hash).
\<close>

record file_meta =
  mtime :: nat
  fingerprint :: nat

type_synonym filesystem = "pathlike \<Rightarrow> file_meta option"

text \<open>
  Modelled from the spec: the Action of the data model (section 3), a declarative unit
  of work with declared input paths, a single output path, an operation (an external
  argument vector or an in-process callback), an optional working directory and the
  \<open>forceRun\<close> flag.
\<close>

record Action =
  inputs :: "pathlike list"
  output_path :: pathlike
  operation :: process
  workdir :: "string option"
  forceRun :: bool

text \<open>
  Modelled from the spec: an entry of the Run Record (section 3), kept per output path:
  the set of input paths at the time of success, the fingerprint of each input, and a
  success flag.
\<close>

record run_entry =
  rec_inputs :: "pathlike set"
  rec_fingerprints :: "pathlike \<Rightarrow> nat option"
  rec_success :: bool

type_synonym run_record = "pathlike \<Rightarrow> run_entry option"

text \<open>Modelled from the spec: the error taxonomy of section 7.\<close>

datatype failure =
    StaleInputUnavailable pathlike pathlike
  | ActionExecutionFailed pathlike
  | OutputMissingAfterSuccess pathlike
  | DuplicateOutputRegistered pathlike

subsection \<open>The validity oracle\<close>

text \<open>
  Modelled from the spec: \<open>isStale\<close> of section 4.1. An action is Stale when it is
  forced; when its output does not exist; when there is no Run Record for its output or
  the recorded input set differs from its inputs; when the current fingerprint of an
  input differs from the recorded one; or when the output's modification time is older
  than an input's. Otherwise it is Fresh.
\<close>

definition isStale :: "filesystem \<Rightarrow> run_record \<Rightarrow> Action \<Rightarrow> bool" where
  "isStale fs rr a =
     (forceRun a
      \<or> (case fs (output_path a) of
            None \<Rightarrow> True
          | Some out \<Rightarrow>
             (case rr (output_path a) of
                None \<Rightarrow> True
              | Some e \<Rightarrow>
                  rec_inputs e \<noteq> set (inputs a)
                  \<or> (\<exists>i \<in> set (inputs a). map_option fingerprint (fs i) \<noteq> rec_fingerprints e i)
                  \<or> (\<exists>i \<in> set (inputs a). \<exists>m. fs i = Some m \<and> mtime out < mtime m))))"

subsection \<open>The executor\<close>

text \<open>
  Modelled from the spec: the Run Record update of section 4.2; on success the entry of
  the action's output is replaced by one with the action's inputs and their fresh
  fingerprints.
\<close>

definition record_success :: "filesystem \<Rightarrow> Action \<Rightarrow> run_entry" where
  "record_success fs a =
     \<lparr>rec_inputs = set (inputs a),
      rec_fingerprints = (\<lambda>i. if i \<in> set (inputs a) then map_option fingerprint (fs i) else None),
      rec_success = True\<rparr>"

text \<open>
  What executing an action does is up to the program or callback it runs: an executor
  gives, for an action and a file system, whether the execution succeeded (exit code 0,
  or a callback that returned) and the file system it leaves.
\<close>

type_synonym executor = "Action \<Rightarrow> filesystem \<Rightarrow> bool \<times> filesystem"

text \<open>
  Modelled from the spec: the execution of one stage (\<open>run()\<close> of section 4.2, with the
  failures of section 7), the actions taken in the order of their registration. A Fresh
  action is skipped. A Stale action with a missing input is fatal; otherwise it is
  executed, and when it succeeds and its output exists its Run Record entry is
  written. A failure aborts the stage and leaves the Run Record as it was. The result
  lists the actions executed, the failure if any, and the file system and Run Record
  after the stage.
\<close>

fun run_stage :: "executor \<Rightarrow> Action list \<Rightarrow> filesystem \<Rightarrow> run_record
    \<Rightarrow> Action list \<times> failure option \<times> filesystem \<times> run_record" where
  "run_stage ex [] fs rr = ([], None, fs, rr)"
| "run_stage ex (a # as) fs rr =
     (if \<not> isStale fs rr a then run_stage ex as fs rr
      else case find (\<lambda>i. fs i = None) (inputs a) of
        Some i \<Rightarrow> ([], Some (StaleInputUnavailable (output_path a) i), fs, rr)
      | None \<Rightarrow>
          (case ex a fs of (ok, fs') \<Rightarrow>
             if \<not> ok then ([a], Some (ActionExecutionFailed (output_path a)), fs', rr)
             else if fs' (output_path a) = None
               then ([a], Some (OutputMissingAfterSuccess (output_path a)), fs', rr)
             else (case run_stage ex as fs' (rr(output_path a \<mapsto> record_success fs' a)) of
                     (exd, f, fs'', rr'') \<Rightarrow> (a # exd, f, fs'', rr''))))"

subsection \<open>The orchestrator instance\<close>

text \<open>
  Modelled from the spec: the orchestrator instance (sections 3 and 6). It is
  constructed with the force-rebuild mode, holds the current stage and owns the Run
  Record.
\<close>

record orchestrator =
  cr_force :: bool
  stage :: "Action list"
  run_record :: run_record


text \<open>
  Modelled from the spec: what registering a driver action makes of it. The force-rebuild
  mode ``maps to \<open>force\<close> on every registered action'' (section 6).
\<close>

definition registered :: "bool \<Rightarrow> action \<Rightarrow> Action" where
  "registered f x =
     \<lparr>inputs = infs x, output_path = outf x, operation = process x, workdir = chdir x,
      forceRun = f\<rparr>"


text \<open>
  Modelled from the spec: the execution API \<open>run()\<close>. The stage is executed and then
  discarded; the Run Record is kept.
\<close>

definition run :: "executor \<Rightarrow> orchestrator \<Rightarrow> filesystem
    \<Rightarrow> Action list \<times> failure option \<times> filesystem \<times> orchestrator" where
  "run ex cr fs =
     (case run_stage ex (stage cr) fs (run_record cr) of
        (exd, f, fs', rr') \<Rightarrow> (exd, f, fs', cr\<lparr>stage := [], run_record := rr'\<rparr>))"

text \<open>
  A run followed, with no file system change in between, by the run of a next stage:
  the next stage is registered after the first run and run on the file system the
  first run left. The result is the failure of the first run (if any) and the result
  of the second run. Running the same stage twice is the case where the next stage is
  the stage again.
\<close>

definition run_then :: "executor \<Rightarrow> orchestrator \<Rightarrow> filesystem \<Rightarrow> Action list
    \<Rightarrow> failure option \<times> Action list \<times> failure option \<times> filesystem \<times> orchestrator" where
  "run_then ex cr fs next_stage =
     (case run ex cr fs of
        (exd1, f1, fs1, cr1) \<Rightarrow> (f1, run ex (cr1\<lparr>stage := next_stage\<rparr>) fs1))"

definition run_twice :: "executor \<Rightarrow> orchestrator \<Rightarrow> filesystem
    \<Rightarrow> failure option \<times> Action list \<times> failure option \<times> filesystem \<times> orchestrator" where
  "run_twice ex cr fs = run_then ex cr fs (stage cr)"

subsection \<open>Conditions on a stage and on what executing its actions does\<close>

text \<open>
  The actions of a stage are independent: their outputs are distinct, and no output is
  an input of an action of the stage.
\<close>

definition independent :: "Action list \<Rightarrow> bool" where
  "independent as =
     (distinct (map output_path as)
      \<and> (\<forall>a \<in> set as. \<forall>b \<in> set as. output_path a \<notin> set (inputs b)))"

text \<open>Executing the action changes no file but its output.\<close>

definition writes_only_output :: "executor \<Rightarrow> Action \<Rightarrow> bool" where
  "writes_only_output ex a = (\<forall>fs p. p \<noteq> output_path a \<longrightarrow> snd (ex a fs) p = fs p)"

text \<open>The output, if it exists, is no older than any input that exists.\<close>

definition up_to_date :: "filesystem \<Rightarrow> Action \<Rightarrow> bool" where
  "up_to_date fs a =
     (\<forall>i \<in> set (inputs a). \<forall>m t. fs i = Some m \<longrightarrow> fs (output_path a) = Some t
        \<longrightarrow> mtime m \<le> mtime t)"

definition leaves_up_to_date :: "executor \<Rightarrow> Action \<Rightarrow> bool" where
  "leaves_up_to_date ex a = (\<forall>fs. fst (ex a fs) \<longrightarrow> up_to_date (snd (ex a fs)) a)"

subsection \<open>Example executors and a one-action stage\<close>

text \<open>
  \<open>keep\<close> succeeds and leaves every file as it is (as a tool does that finds its output
  in place and does not rewrite it). \<open>produce\<close> succeeds and writes the output with a
  timestamp later than every input's.
\<close>

definition keep :: executor where
  "keep a fs = (True, fs)"

definition newest :: "filesystem \<Rightarrow> pathlike list \<Rightarrow> nat" where
  "newest fs ps = foldr max (map (\<lambda>i. case fs i of None \<Rightarrow> 0 | Some m \<Rightarrow> mtime m) ps) 0"

definition produce :: executor where
  "produce a fs =
     (True, fs(output_path a \<mapsto> \<lparr>mtime = Suc (newest fs (inputs a)), fingerprint = 0\<rparr>))"

definition example_compile :: action where
  "example_compile =
     \<lparr>process = Command [Str ''c++'', Str ''-c'', Str ''a.cc'', Str ''-o'', Str ''a.o''],
      infs = [Str ''a.cc''], outf = Str ''a.o'', chdir = None\<rparr>"

definition example_runner :: "bool \<Rightarrow> orchestrator" where
  "example_runner f =
     \<lparr>cr_force = f, stage = [registered f example_compile], run_record = Map.empty\<rparr>"

definition example_fs :: filesystem where
  "example_fs = Map.empty(Str ''a.cc'' \<mapsto> \<lparr>mtime = 1, fingerprint = 1\<rparr>)"


section \<open>Properties of the driver\<close>

subsection \<open>\<open>_make_absolute\<close> returns relative paths\<close>

lemma parents_set:
  "set (parents p) = {p\<lparr>p_tail := take k (p_tail p)\<rparr> | k. k < length (p_tail p)}"
  by (auto simp: parents_def)

lemma is_relative_to_iff: "is_relative_to p d = located_under p d"
proof
  assume "is_relative_to p d"
  then consider "d = p" | k where "k < length (p_tail p)" "d = p\<lparr>p_tail := take k (p_tail p)\<rparr>"
    by (auto simp: is_relative_to_def parents_set)
  then show "located_under p d"
  proof cases
    case 1
    then show ?thesis by (simp add: located_under_def)
  next
    case 2
    then show ?thesis by (simp add: located_under_def take_is_prefix)
  qed
next
  assume u: "located_under p d"
  then obtain rest where t: "p_tail p = p_tail d @ rest"
    by (auto simp: located_under_def prefix_def)
  show "is_relative_to p d"
  proof (cases rest)
    case Nil
    with u t have "d = p" by (simp add: located_under_def)
    then show ?thesis by (simp add: is_relative_to_def)
  next
    case (Cons r rs)
    let ?k = "length (p_tail d)"
    have "?k < length (p_tail p)" using t Cons by simp
    moreover have "d = p\<lparr>p_tail := take ?k (p_tail p)\<rparr>"
      using u t by (simp add: located_under_def)
    ultimately show ?thesis
      unfolding is_relative_to_def parents_set by blast
  qed
qed

text \<open>
  C10. \<open>_make_absolute\<close> never returns an absolute path: a relative path is returned
  unchanged; an absolute path under the working directory is returned relative to it
  (the result's components, appended to the working directory's, give the path back);
  and the call raises \<open>AssertionError\<close> exactly when the path is absolute and not under
  the working directory.
\<close>

theorem make_absolute_relative:
  "(\<forall>q. make_absolute wd p = Inr q \<longrightarrow> \<not> is_absolute q)
   \<and> (\<not> is_absolute p \<longrightarrow> make_absolute wd p = Inr p)
   \<and> (is_absolute p \<and> located_under p wd \<longrightarrow>
        (\<exists>q. make_absolute wd p = Inr q \<and> p_root q = [] \<and> p_tail p = p_tail wd @ p_tail q
             \<and> relative_to p wd = Inr q))
   \<and> ((\<exists>e. make_absolute wd p = Inl e) \<longleftrightarrow> is_absolute p \<and> \<not> located_under p wd)
   \<and> (\<forall>e. make_absolute wd p = Inl e \<longrightarrow>
        e = AssertionError ''path must be relative to cwd for builtin-yosys to access it'')"
  by (auto simp: make_absolute_def relative_to_def is_relative_to_iff is_absolute_def
      located_under_def prefix_def split: sum.splits if_splits)

theorem make_absolute_relative_witness:
  "make_absolute \<lparr>p_root = ''/'', p_tail = [''home'', ''me'']\<rparr>
       \<lparr>p_root = ''/'', p_tail = [''home'', ''me'', ''build'', ''top.il'']\<rparr>
     = Inr \<lparr>p_root = [], p_tail = [''build'', ''top.il'']\<rparr>
   \<and> make_absolute \<lparr>p_root = ''/'', p_tail = [''home'', ''me'']\<rparr>
       \<lparr>p_root = [], p_tail = [''build'', ''top.il'']\<rparr>
     = Inr \<lparr>p_root = [], p_tail = [''build'', ''top.il'']\<rparr>
   \<and> make_absolute \<lparr>p_root = ''/'', p_tail = [''home'', ''me'']\<rparr>
       \<lparr>p_root = ''/'', p_tail = [''tmp'', ''top.il'']\<rparr>
     = Inl (AssertionError ''path must be relative to cwd for builtin-yosys to access it'')"
proof -
  let ?cwd = "\<lparr>p_root = ''/'', p_tail = [''home'', ''me'']\<rparr>"
  let ?a = "\<lparr>p_root = ''/'', p_tail = [''home'', ''me'', ''build'', ''top.il'']\<rparr>"
  let ?r = "\<lparr>p_root = [], p_tail = [''build'', ''top.il'']\<rparr>"
  let ?t = "\<lparr>p_root = ''/'', p_tail = [''tmp'', ''top.il'']\<rparr>"
  have a: "is_absolute ?a \<and> located_under ?a ?cwd"
    by (simp add: is_absolute_def located_under_def)
  have r: "\<not> is_absolute ?r"
    by (simp add: is_absolute_def)
  have t: "is_absolute ?t \<and> \<not> located_under ?t ?cwd"
    by (simp add: is_absolute_def located_under_def)
  from make_absolute_relative [of ?cwd ?a] a
  obtain q where q: "make_absolute ?cwd ?a = Inr q" "p_root q = []"
    "p_tail ?a = p_tail ?cwd @ p_tail q"
    by blast
  then have "q = ?r" by simp
  with q have 1: "make_absolute ?cwd ?a = Inr ?r" by simp
  from make_absolute_relative [of ?cwd ?r] r
  have 2: "make_absolute ?cwd ?r = Inr ?r" by blast
  from make_absolute_relative [of ?cwd ?t] t
  obtain e where "make_absolute ?cwd ?t = Inl e"
    and "e = AssertionError ''path must be relative to cwd for builtin-yosys to access it''"
    by blast
  then have 3: "make_absolute ?cwd ?t
      = Inl (AssertionError ''path must be relative to cwd for builtin-yosys to access it'')"
    by simp
  from 1 2 3 show ?thesis by simp
qed

subsection \<open>\<open>add_arguments\<close>\<close>

text \<open>
  C9. \<open>add_arguments\<close> raises \<open>RuntimeError\<close> with the message \<open>no cxxrtl targets defined\<close>
  when the project defines no CXXRTL target. Otherwise it adds the \<open>-t/--target\<close> option
  first, with the sorted target names as choices; the option is required exactly when
  there is more than one target, and with a single target it defaults to that target's
  name (with several targets it has no default).
\<close>

theorem add_arguments_target:
  "(defined_targets np = [] \<longrightarrow>
      add_arguments np ps = Inl (RuntimeError ''no cxxrtl targets defined''))
   \<and> (defined_targets np \<noteq> [] \<longrightarrow>
      (\<exists>t. add_arguments np ps
             = Inr (ps\<lparr>defaults := AList.update ''func'' ''main'' (defaults ps),
                       arguments := arguments ps @ t # common_arguments\<rparr>)
           \<and> flags t = [''-t'', ''--target'']
           \<and> choices t = Some (sort (defined_targets np))
           \<and> (required t \<longleftrightarrow> 1 < length (defined_targets np))
           \<and> (\<forall>x. defined_targets np = [x] \<longrightarrow> default t = Some x)
           \<and> (1 < length (defined_targets np) \<longrightarrow> default t = None)))"
proof (cases "sort (defined_targets np)")
  case Nil
  then have "defined_targets np = []"
    by (metis length_sort length_0_conv)
  with Nil show ?thesis
    by (simp add: add_arguments_def target_names_def)
next
  case (Cons first rest)
  then have ne: "defined_targets np \<noteq> []" by auto
  have len: "length (defined_targets np) = Suc (length rest)"
    using Cons by (metis length_sort length_Cons)
  have one: "defined_targets np = [x] \<Longrightarrow> first = x \<and> rest = []" for x
    using Cons by simp
  let ?t = "target_argument first rest"
  have "add_arguments np ps
      = Inr (ps\<lparr>defaults := AList.update ''func'' ''main'' (defaults ps),
                arguments := arguments ps @ ?t # common_arguments\<rparr>)"
    using Cons by (simp add: add_arguments_def target_names_def)
  moreover have "flags ?t = [''-t'', ''--target'']"
    by (simp add: target_argument_def)
  moreover have "choices ?t = Some (sort (defined_targets np))"
    using Cons by (simp add: target_argument_def)
  moreover have "required ?t \<longleftrightarrow> 1 < length (defined_targets np)"
    using len by (simp add: target_argument_def)
  moreover have "\<forall>x. defined_targets np = [x] \<longrightarrow> default ?t = Some x"
    using one by (simp add: target_argument_def)
  moreover have "1 < length (defined_targets np) \<longrightarrow> default ?t = None"
    using len by (simp add: target_argument_def)
  ultimately show ?thesis using ne by blast
qed

theorem add_arguments_target_witness:
  "add_arguments (example_project\<lparr>cxxrtl_targets := None\<rparr>) \<lparr>defaults = [], arguments = []\<rparr>
     = Inl (RuntimeError ''no cxxrtl targets defined'')
   \<and> (\<exists>t. add_arguments example_project \<lparr>defaults = [], arguments = []\<rparr>
            = Inr \<lparr>defaults = [(''func'', ''main'')], arguments = t # common_arguments\<rparr>
          \<and> choices t = Some [''Sim''] \<and> \<not> required t \<and> default t = Some ''Sim'')
   \<and> (\<exists>t. add_arguments (example_project\<lparr>cxxrtl_targets := Some [''Sim'', ''Board'']\<rparr>)
              \<lparr>defaults = [], arguments = []\<rparr>
            = Inr \<lparr>defaults = [(''func'', ''main'')], arguments = t # common_arguments\<rparr>
          \<and> choices t = Some [''Board'', ''Sim''] \<and> required t \<and> default t = None)"
proof -
  let ?ps = "\<lparr>defaults = [], arguments = []\<rparr>"
  let ?n = "example_project\<lparr>cxxrtl_targets := None\<rparr>"
  let ?two = "example_project\<lparr>cxxrtl_targets := Some [''Sim'', ''Board'']\<rparr>"
  have d0: "defined_targets ?n = []"
    by (simp add: defined_targets_def)
  have d1: "defined_targets example_project = [''Sim'']"
    by (simp add: defined_targets_def example_project_def)
  have d2: "defined_targets ?two = [''Sim'', ''Board'']"
    by (simp add: defined_targets_def)
  have s2: "sort [''Sim'', ''Board''] = [''Board'', ''Sim'']"
    by code_simp
  from add_arguments_target [of ?n ?ps] d0 have 1: "add_arguments ?n ?ps
      = Inl (RuntimeError ''no cxxrtl targets defined'')"
    by simp
  from add_arguments_target [of example_project ?ps] d1
  have 2: "\<exists>t. add_arguments example_project ?ps
            = Inr \<lparr>defaults = [(''func'', ''main'')], arguments = t # common_arguments\<rparr>
          \<and> choices t = Some [''Sim''] \<and> \<not> required t \<and> default t = Some ''Sim''"
    by auto
  from add_arguments_target [of ?two ?ps] d2 s2
  have 3: "\<exists>t. add_arguments ?two ?ps
            = Inr \<lparr>defaults = [(''func'', ''main'')], arguments = t # common_arguments\<rparr>
          \<and> choices t = Some [''Board'', ''Sim''] \<and> required t \<and> default t = None"
    by auto
  from 1 2 3 show ?thesis by blast
qed

subsection \<open>The shape of a driver run\<close>

lemma elaboration_Inr:
  assumes "elaboration np ev = Inr el"
  shows "\<exists>ys il cc. make_absolute (cwd ev) (np_path_build np [name np @ ''-cxxrtl.ys'']) = Inr ys
           \<and> el = [WriteFile (il_path np) (rtlil_text ev), WriteFile ys (yosys_script il cc),
                   AddProcess (rtlil_action np ys), Run]"
  using assms by (auto simp: elaboration_def split: sum.splits)

lemma main_Inr:
  assumes "main np a ev = Inr tr"
  shows "\<exists>el l. elaboration np ev = Inr el \<and> link_action np a ev = Inr l
           \<and> tr = [FindYosys, Makedirs (np_path_build np []), NewRunner (force a)] @ el
                  @ map AddProcess (compile_actions np a ev)
                  @ [JsonDump (np_path_build np [''compile_commands.json''])
                       (compile_commands_json np (cr_compile_commands ev)), Run]
                  @ [AddProcess l, Run]
                  @ (if uses_zig (platform ev) then [Copy (Str zig_outf) (exe_o_path np)] else [])
                  @ running np a"
  using assms by (auto simp: main_def linking_def compilation_def split: sum.splits)

lemma batches_AddProcess: "batches cur (map AddProcess xs @ es) = batches (cur @ xs) es"
  by (induction xs arbitrary: cur) auto

lemma batches_running: "batches [] (running np a) = []"
  by (simp add: running_def)

lemma main_batches:
  assumes "main np a ev = Inr tr"
  shows "\<exists>ys l. make_absolute (cwd ev) (np_path_build np [name np @ ''-cxxrtl.ys'']) = Inr ys
           \<and> link_action np a ev = Inr l
           \<and> batches [] tr = [[rtlil_action np ys], compile_actions np a ev, [l]]"
proof -
  from main_Inr [OF assms] obtain el l where
    el: "elaboration np ev = Inr el" and l: "link_action np a ev = Inr l" and
    tr: "tr = [FindYosys, Makedirs (np_path_build np []), NewRunner (force a)] @ el
                  @ map AddProcess (compile_actions np a ev)
                  @ [JsonDump (np_path_build np [''compile_commands.json''])
                       (compile_commands_json np (cr_compile_commands ev)), Run]
                  @ [AddProcess l, Run]
                  @ (if uses_zig (platform ev) then [Copy (Str zig_outf) (exe_o_path np)] else [])
                  @ running np a"
    by blast
  from elaboration_Inr [OF el] obtain ys il cc where
    ys: "make_absolute (cwd ev) (np_path_build np [name np @ ''-cxxrtl.ys'']) = Inr ys" and
    el': "el = [WriteFile (il_path np) (rtlil_text ev), WriteFile ys (yosys_script il cc),
                AddProcess (rtlil_action np ys), Run]"
    by blast
  have "batches [] tr = [[rtlil_action np ys], compile_actions np a ev, [l]]"
    unfolding tr el' by (simp add: batches_AddProcess batches_running)
  with ys l show ?thesis by blast
qed

text \<open>The example run raises nothing, whatever the options.\<close>

lemmas path_defs = np_path_build_def np_path_def joinpath_def join1_def parse_tail_def
  parse_path_def splitroot_def path_stem_def path_name_def str_path_def make_absolute_def
  relative_to_def is_relative_to_def parents_def is_absolute_def il_path_def
  cxxrtl_cc_path_def exe_o_path_def

lemma example_elaboration:
  "elaboration example_project (example_env\<lparr>cc_files := fs\<rparr>)
   = Inr [WriteFile \<lparr>p_root = ''/'', p_tail = [''proj'', ''build'', ''top.il'']\<rparr> ''module top'',
          WriteFile \<lparr>p_root = [], p_tail = [''build'', ''top-cxxrtl.ys'']\<rparr>
            (''read_rtlil build/top.il'' @ [CHR 0x0A]
             @ ''write_cxxrtl -header build/top.cc'' @ [CHR 0x0A]),
          AddProcess (rtlil_action example_project
                        \<lparr>p_root = [], p_tail = [''build'', ''top-cxxrtl.ys'']\<rparr>),
          Run]"
  by (simp add: elaboration_def yosys_script_def path_defs example_project_def example_env_def)

lemma example_main_files:
  "\<exists>tr. main example_project a (example_env\<lparr>cc_files := fs\<rparr>) = Inr tr"
proof -
  have "\<exists>l. link_action example_project a (example_env\<lparr>cc_files := fs\<rparr>) = Inr l"
    by (simp add: link_action_def example_env_def)
  then show ?thesis
    by (auto simp: main_def linking_def example_elaboration)
qed

lemma example_main: "\<exists>tr. main example_project a example_env = Inr tr"
  using example_main_files [of a "cc_files example_env"] by simp

lemma same_stem_main: "\<exists>tr. main example_project a same_stem_env = Inr tr"
  using example_main_files by (simp add: same_stem_env_def)

lemma same_stem_cc_odep_paths:
  "cc_odep_paths example_project same_stem_env
   = [(\<lparr>p_root = ''/'', p_tail = [''proj'', ''build'', ''top.cc'']\<rparr>,
       \<lparr>p_root = ''/'', p_tail = [''proj'', ''build'', ''top.o'']\<rparr>, []),
      (\<lparr>p_root = ''/'', p_tail = [''proj'', ''cxxrtl'', ''a.cc'']\<rparr>,
       \<lparr>p_root = ''/'', p_tail = [''proj'', ''build'', ''a.o'']\<rparr>,
       [\<lparr>p_root = ''/'', p_tail = [''proj'', ''cxxrtl'', ''a.h'']\<rparr>]),
      (\<lparr>p_root = ''/'', p_tail = [''proj'', ''cxxrtl'', ''dir'', ''a.cc'']\<rparr>,
       \<lparr>p_root = ''/'', p_tail = [''proj'', ''build'', ''a.o'']\<rparr>,
       [\<lparr>p_root = ''/'', p_tail = [''proj'', ''cxxrtl'', ''a.h'']\<rparr>])]"
  by (simp add: cc_odep_paths_def path_defs example_project_def example_env_def
      same_stem_env_def)

subsection \<open>The compilation database\<close>

text \<open>
  C2. What the driver hands to \<open>json.dump\<close> is an array with one element per item of
  \<open>cr.compile_commands\<close>, in the order of the items. Each element is an object whose
  keys are exactly \<open>directory\<close>, \<open>file\<close> and \<open>arguments\<close>, in this order: \<open>directory\<close> is
  the string of the project's root \<open>np.path()\<close>, \<open>file\<close> is the item's key, and
  \<open>arguments\<close> is the array of the item's strings in their order. A driver run that
  raises nothing writes this value to \<open>build/compile_commands.json\<close>.
\<close>

theorem compile_commands_json_entries:
  "(\<exists>elems. compile_commands_json np items = JArray elems
      \<and> length elems = length items
      \<and> (\<forall>i<length items.
            elems ! i = JObject [(''directory'', JString (str_path (origin np))),
                                 (''file'', JString (fst (items ! i))),
                                 (''arguments'', JArray (map JString (snd (items ! i))))]))
   \<and> (\<forall>tr. main np a ev = Inr tr \<longrightarrow>
         JsonDump (joinpath (origin np) [''build'', ''compile_commands.json''])
           (compile_commands_json np (cr_compile_commands ev)) \<in> set tr)"
proof -
  have root: "np_path np [] = origin np"
    by (simp add: np_path_def joinpath_def)
  define elems where "elems = map (\<lambda>(file, arguments).
             JObject [(''directory'', JString (str_path (np_path np []))),
                      (''file'', JString file),
                      (''arguments'', JArray (map JString arguments))]) items"
  have a: "compile_commands_json np items = JArray elems"
    by (simp add: compile_commands_json_def elems_def)
  have b: "length elems = length items"
    by (simp add: elems_def)
  have c: "\<forall>i<length items.
      elems ! i = JObject [(''directory'', JString (str_path (origin np))),
                 (''file'', JString (fst (items ! i))),
                 (''arguments'', JArray (map JString (snd (items ! i))))]"
    by (simp add: elems_def root case_prod_beta)
  have 2: "\<forall>tr. main np a ev = Inr tr \<longrightarrow>
         JsonDump (joinpath (origin np) [''build'', ''compile_commands.json''])
           (compile_commands_json np (cr_compile_commands ev)) \<in> set tr"
    by (auto simp: main_def compilation_def np_path_build_def np_path_def
        split: sum.splits)
  from a b c 2 show ?thesis by blast
qed

theorem compile_commands_json_entries_witness:
  "compile_commands_json example_project (cr_compile_commands example_env)
   = JArray [JObject [(''directory'', JString ''/proj''), (''file'', JString ''a.cc''),
                      (''arguments'', JArray [JString ''c++'', JString ''-c'', JString ''a.cc'',
                                              JString ''-o'', JString ''a.o''])],
             JObject [(''directory'', JString ''/proj''), (''file'', JString ''b.cc''),
                      (''arguments'', JArray [JString ''c++'', JString ''-c'', JString ''b.cc'',
                                              JString ''-o'', JString ''b.o''])]]
   \<and> (\<exists>tr. main example_project example_args example_env = Inr tr
         \<and> JsonDump \<lparr>p_root = ''/'', p_tail = [''proj'', ''build'', ''compile_commands.json'']\<rparr>
              (compile_commands_json example_project (cr_compile_commands example_env))
            \<in> set tr)"
proof -
  let ?items = "cr_compile_commands example_env"
  obtain tr where tr: "main example_project example_args example_env = Inr tr"
    using example_main by blast
  have items: "?items = [(''a.cc'', [''c++'', ''-c'', ''a.cc'', ''-o'', ''a.o'']),
                         (''b.cc'', [''c++'', ''-c'', ''b.cc'', ''-o'', ''b.o''])]"
    by (simp add: example_env_def)
  have root: "str_path (origin example_project) = ''/proj''"
    by (simp add: str_path_def example_project_def)
  have dbfile: "joinpath (origin example_project) [''build'', ''compile_commands.json'']
      = \<lparr>p_root = ''/'', p_tail = [''proj'', ''build'', ''compile_commands.json'']\<rparr>"
    by (simp add: path_defs example_project_def)
  note entries = compile_commands_json_entries [of example_project ?items example_args example_env]
  from entries obtain elems where
    e: "compile_commands_json example_project ?items = JArray elems"
    and n: "length elems = length ?items"
    and each: "\<forall>i<length ?items.
       elems ! i = JObject [(''directory'', JString (str_path (origin example_project))),
                            (''file'', JString (fst (?items ! i))),
                            (''arguments'', JArray (map JString (snd (?items ! i))))]"
    by blast
  from n items obtain x y where xy: "elems = [x, y]"
    by (cases elems; cases "tl elems"; cases "tl (tl elems)") auto
  from each [rule_format, of 0] each [rule_format, of 1] xy items root
  have "x = JObject [(''directory'', JString ''/proj''), (''file'', JString ''a.cc''),
                      (''arguments'', JArray [JString ''c++'', JString ''-c'', JString ''a.cc'',
                                              JString ''-o'', JString ''a.o''])]"
    and "y = JObject [(''directory'', JString ''/proj''), (''file'', JString ''b.cc''),
                      (''arguments'', JArray [JString ''c++'', JString ''-c'', JString ''b.cc'',
                                              JString ''-o'', JString ''b.o''])]"
    by simp_all
  with e xy have 1: "compile_commands_json example_project ?items
   = JArray [JObject [(''directory'', JString ''/proj''), (''file'', JString ''a.cc''),
                      (''arguments'', JArray [JString ''c++'', JString ''-c'', JString ''a.cc'',
                                              JString ''-o'', JString ''a.o''])],
             JObject [(''directory'', JString ''/proj''), (''file'', JString ''b.cc''),
                      (''arguments'', JArray [JString ''c++'', JString ''-c'', JString ''b.cc'',
                                              JString ''-o'', JString ''b.o''])]]"
    by simp
  from entries tr dbfile have 2: "JsonDump \<lparr>p_root = ''/'', p_tail = [''proj'', ''build'', ''compile_commands.json'']\<rparr>
              (compile_commands_json example_project ?items) \<in> set tr"
    by auto
  from 1 2 tr show ?thesis by blast
qed

subsection \<open>Running the executable\<close>

text \<open>
  C5. In a driver run that raises nothing, the executable \<open>build/cxxrtl\<close> is started with
  \<open>cr.run_cmd\<close> and step name \<open>run\<close> if and only if \<open>--compile\<close> is not given: without the
  flag it is the last call of the run, after the three batches, and the only \<open>run_cmd\<close>;
  with the flag there is no \<open>run_cmd\<close> call at all.
\<close>

theorem run_cmd_iff_not_compile:
  assumes "main np a ev = Inr tr"
  shows "(\<not> compile a \<longrightarrow>
            (\<exists>pre. tr = pre @ [RunCmd (run_cmd_argv np a) ''run'']
                 \<and> (\<forall>c s. RunCmd c s \<notin> set pre)
                 \<and> length (batches [] pre) = 3)
            \<and> hd (run_cmd_argv np a) = Pth (exe_o_path np))
       \<and> (compile a \<longrightarrow> (\<forall>c s. RunCmd c s \<notin> set tr))"
proof -
  from main_Inr [OF assms] obtain el l where
    el: "elaboration np ev = Inr el" and l: "link_action np a ev = Inr l" and
    tr: "tr = [FindYosys, Makedirs (np_path_build np []), NewRunner (force a)] @ el
                  @ map AddProcess (compile_actions np a ev)
                  @ [JsonDump (np_path_build np [''compile_commands.json''])
                       (compile_commands_json np (cr_compile_commands ev)), Run]
                  @ [AddProcess l, Run]
                  @ (if uses_zig (platform ev) then [Copy (Str zig_outf) (exe_o_path np)] else [])
                  @ running np a"
    by blast
  from elaboration_Inr [OF el] obtain ys il cc where
    el': "el = [WriteFile (il_path np) (rtlil_text ev), WriteFile ys (yosys_script il cc),
                AddProcess (rtlil_action np ys), Run]"
    by blast
  let ?pre = "[FindYosys, Makedirs (np_path_build np []), NewRunner (force a)] @ el
                  @ map AddProcess (compile_actions np a ev)
                  @ [JsonDump (np_path_build np [''compile_commands.json''])
                       (compile_commands_json np (cr_compile_commands ev)), Run]
                  @ [AddProcess l, Run]
                  @ (if uses_zig (platform ev) then [Copy (Str zig_outf) (exe_o_path np)] else [])"
  have none: "\<forall>c s. RunCmd c s \<notin> set ?pre"
    unfolding el' by auto
  have three: "length (batches [] ?pre) = 3"
    unfolding el' by (simp add: batches_AddProcess)
  have split: "tr = ?pre @ running np a"
    unfolding tr by simp
  show ?thesis
  proof (cases "compile a")
    case True
    then have "tr = ?pre" using split by (simp add: running_def)
    with none True show ?thesis by simp
  next
    case False
    then have "tr = ?pre @ [RunCmd (run_cmd_argv np a) ''run'']"
      using split by (simp add: running_def)
    moreover have "hd (run_cmd_argv np a) = Pth (exe_o_path np)"
      by (simp add: run_cmd_argv_def)
    ultimately show ?thesis using none three False by blast
  qed
qed

theorem run_cmd_iff_not_compile_witness:
  "(\<exists>pre. main example_project example_args example_env
           = Inr (pre @ [RunCmd [Pth \<lparr>p_root = ''/'', p_tail = [''proj'', ''build'', ''cxxrtl'']\<rparr>]
                          ''run''])
         \<and> (\<forall>c s. RunCmd c s \<notin> set pre))
   \<and> (\<exists>tr. main example_project (example_args\<lparr>compile := True\<rparr>) example_env = Inr tr
         \<and> (\<forall>c s. RunCmd c s \<notin> set tr))"
proof -
  obtain tr where tr: "main example_project example_args example_env = Inr tr"
    using example_main by blast
  obtain tr' where tr':
    "main example_project (example_args\<lparr>compile := True\<rparr>) example_env = Inr tr'"
    using example_main by blast
  have argv: "run_cmd_argv example_project example_args
      = [Pth \<lparr>p_root = ''/'', p_tail = [''proj'', ''build'', ''cxxrtl'']\<rparr>]"
    by (simp add: run_cmd_argv_def path_defs example_project_def example_args_def)
  have nc: "\<not> compile example_args"
    by (simp add: example_args_def)
  from run_cmd_iff_not_compile [OF tr] nc argv tr
  have 1: "\<exists>pre. main example_project example_args example_env
           = Inr (pre @ [RunCmd [Pth \<lparr>p_root = ''/'', p_tail = [''proj'', ''build'', ''cxxrtl'']\<rparr>]
                          ''run''])
         \<and> (\<forall>c s. RunCmd c s \<notin> set pre)"
    by auto
  from run_cmd_iff_not_compile [OF tr'] tr'
  have 2: "\<exists>tr. main example_project (example_args\<lparr>compile := True\<rparr>) example_env = Inr tr
         \<and> (\<forall>c s. RunCmd c s \<notin> set tr)"
    by auto
  from 1 2 show ?thesis by blast
qed

subsection \<open>Outputs within a batch\<close>

text \<open>
  C1. The outputs of the actions of one batch are not always distinct. In the example
  with two sources of the same name, the sources \<open>cxxrtl/a.cc\<close> and \<open>cxxrtl/dir/a.cc\<close> have the same stem, so the second
  batch of the run holds two compile actions with the output \<open>build/a.o\<close>.
\<close>

theorem compile_outputs_collide:
  "(\<exists>tr. main example_project example_args same_stem_env = Inr tr
       \<and> batches [] tr ! 1 = compile_actions example_project example_args same_stem_env)
   \<and> map (\<lambda>x. (hd (infs x), outf x))
         (compile_actions example_project example_args same_stem_env)
     = [(Pth \<lparr>p_root = ''/'', p_tail = [''proj'', ''build'', ''top.cc'']\<rparr>,
         Pth \<lparr>p_root = ''/'', p_tail = [''proj'', ''build'', ''top.o'']\<rparr>),
        (Pth \<lparr>p_root = ''/'', p_tail = [''proj'', ''cxxrtl'', ''a.cc'']\<rparr>,
         Pth \<lparr>p_root = ''/'', p_tail = [''proj'', ''build'', ''a.o'']\<rparr>),
        (Pth \<lparr>p_root = ''/'', p_tail = [''proj'', ''cxxrtl'', ''dir'', ''a.cc'']\<rparr>,
         Pth \<lparr>p_root = ''/'', p_tail = [''proj'', ''build'', ''a.o'']\<rparr>)]
   \<and> \<not> distinct (map outf (compile_actions example_project example_args same_stem_env))"
proof -
  obtain tr where tr: "main example_project example_args same_stem_env = Inr tr"
    using same_stem_main by blast
  from main_batches [OF tr]
  have "batches [] tr ! 1 = compile_actions example_project example_args same_stem_env"
    by auto
  with tr have 1: "\<exists>tr. main example_project example_args same_stem_env = Inr tr
       \<and> batches [] tr ! 1 = compile_actions example_project example_args same_stem_env"
    by blast
  have 2: "map (\<lambda>x. (hd (infs x), outf x))
         (compile_actions example_project example_args same_stem_env)
     = [(Pth \<lparr>p_root = ''/'', p_tail = [''proj'', ''build'', ''top.cc'']\<rparr>,
         Pth \<lparr>p_root = ''/'', p_tail = [''proj'', ''build'', ''top.o'']\<rparr>),
        (Pth \<lparr>p_root = ''/'', p_tail = [''proj'', ''cxxrtl'', ''a.cc'']\<rparr>,
         Pth \<lparr>p_root = ''/'', p_tail = [''proj'', ''build'', ''a.o'']\<rparr>),
        (Pth \<lparr>p_root = ''/'', p_tail = [''proj'', ''cxxrtl'', ''dir'', ''a.cc'']\<rparr>,
         Pth \<lparr>p_root = ''/'', p_tail = [''proj'', ''build'', ''a.o'']\<rparr>)]"
    by (simp add: compile_actions_def compile_action_def same_stem_cc_odep_paths)
  have 3: "\<not> distinct (map outf (compile_actions example_project example_args same_stem_env))"
    by (simp add: compile_actions_def compile_action_def same_stem_cc_odep_paths)
  from 1 2 3 show ?thesis by blast
qed

subsection \<open>The optimize option\<close>











lemma compile_actions_Command:
  assumes "x \<in> set (compile_actions np a ev)"
  shows "\<exists>cc ob. process x = Command (compile_cmd np a ev cc ob)"
  using assms by (force simp: compile_actions_def compile_action_def)




subsection \<open>The debug option\<close>

lemma count_cxxflags: "count_list (cxxflags a ev) ''-g'' = (if debug a then 2 else 1)"
  by (simp add: cxxflags_def CXXFLAGS_def)

lemma count_list_map_Str: "count_list (map Str xs) (Str s) = count_list xs s"
  by (induction xs) auto

lemma count_compile_cmd:
  "count_list (compile_cmd np a ev cc ob) (Str ''-g'') = (if debug a then 2 else 1)"
  by (simp add: compile_cmd_def count_list_map_Str count_cxxflags)

lemma compile_cmd_debug:
  "\<exists>pre post. compile_cmd np (a\<lparr>debug := False\<rparr>) ev cc ob = pre @ post
       \<and> compile_cmd np (a\<lparr>debug := True\<rparr>) ev cc ob = pre @ Str ''-g'' # post"
proof -
  let ?pre = "(if uses_zig (platform ev) then [Str ''zig''] else []) @ [Str ''c++'']
     @ map Str (CXXFLAGS @ [''-DCLOCK_HZ='' @ str_int (default_clk_frequency (platform ev))]
                @ (if opt_rtl (optimize a) then [''-O3''] else [''-O0'']))"
  let ?post = "map Str (if uses_zig (platform ev)
        then [''-DCXXRTL_INCLUDE_CAPI_IMPL'', ''-DCXXRTL_INCLUDE_VCD_CAPI_IMPL''] else [])
     @ [Str (''-I'' @ str_path (np_path np [''build''])),
        Str (''-I'' @ str_path
               (joinpath (yosys_data_dir ev) [''include'', ''backends'', ''cxxrtl'', ''runtime''])),
        Str ''-c'', Pth cc, Str ''-o'', Pth ob]"
  have "compile_cmd np (a\<lparr>debug := False\<rparr>) ev cc ob = ?pre @ ?post"
    by (simp add: compile_cmd_def cxxflags_def)
  moreover have "compile_cmd np (a\<lparr>debug := True\<rparr>) ev cc ob = ?pre @ Str ''-g'' # ?post"
    by (simp add: compile_cmd_def cxxflags_def)
  ultimately show ?thesis by blast
qed

text \<open>
  C8. The argument vector of every compile action contains \<open>-g\<close>: once without
  \<open>--debug\<close> (from \<open>CXXFLAGS\<close>), twice with it. With and without \<open>--debug\<close> the driver
  registers the same compile actions, with the same inputs, output and working
  directory; the argument vector with \<open>--debug\<close> is the one without it with one more
  \<open>-g\<close> inserted.
\<close>

theorem compile_argv_debug:
  "(\<forall>x \<in> set (compile_actions np a ev). \<exists>argv. process x = Command argv
       \<and> Str ''-g'' \<in> set argv
       \<and> count_list argv (Str ''-g'') = (if debug a then 2 else 1))
   \<and> length (compile_actions np (a\<lparr>debug := True\<rparr>) ev)
       = length (compile_actions np (a\<lparr>debug := False\<rparr>) ev)
   \<and> (\<forall>i < length (compile_actions np (a\<lparr>debug := False\<rparr>) ev).
         \<exists>pre post.
           process (compile_actions np (a\<lparr>debug := False\<rparr>) ev ! i) = Command (pre @ post)
           \<and> process (compile_actions np (a\<lparr>debug := True\<rparr>) ev ! i)
               = Command (pre @ Str ''-g'' # post)
           \<and> infs (compile_actions np (a\<lparr>debug := True\<rparr>) ev ! i)
               = infs (compile_actions np (a\<lparr>debug := False\<rparr>) ev ! i)
           \<and> outf (compile_actions np (a\<lparr>debug := True\<rparr>) ev ! i)
               = outf (compile_actions np (a\<lparr>debug := False\<rparr>) ev ! i)
           \<and> chdir (compile_actions np (a\<lparr>debug := True\<rparr>) ev ! i)
               = chdir (compile_actions np (a\<lparr>debug := False\<rparr>) ev ! i))"
proof -
  have 1: "\<forall>x \<in> set (compile_actions np a ev). \<exists>argv. process x = Command argv
       \<and> Str ''-g'' \<in> set argv
       \<and> count_list argv (Str ''-g'') = (if debug a then 2 else 1)"
  proof
    fix x assume "x \<in> set (compile_actions np a ev)"
    from compile_actions_Command [OF this] obtain cc ob
      where x: "process x = Command (compile_cmd np a ev cc ob)" by blast
    have c: "count_list (compile_cmd np a ev cc ob) (Str ''-g'') = (if debug a then 2 else 1)"
      by (rule count_compile_cmd)
    then have "0 < count_list (compile_cmd np a ev cc ob) (Str ''-g'')"
      by simp
    then have "Str ''-g'' \<in> set (compile_cmd np a ev cc ob)"
      by (simp add: count_list_0_iff zero_less_iff_neq_zero)
    with x c show "\<exists>argv. process x = Command argv \<and> Str ''-g'' \<in> set argv
       \<and> count_list argv (Str ''-g'') = (if debug a then 2 else 1)"
      by blast
  qed
  have 2: "length (compile_actions np (a\<lparr>debug := True\<rparr>) ev)
       = length (compile_actions np (a\<lparr>debug := False\<rparr>) ev)"
    by (simp add: compile_actions_def)
  have 3: "\<forall>i < length (compile_actions np (a\<lparr>debug := False\<rparr>) ev).
         \<exists>pre post.
           process (compile_actions np (a\<lparr>debug := False\<rparr>) ev ! i) = Command (pre @ post)
           \<and> process (compile_actions np (a\<lparr>debug := True\<rparr>) ev ! i)
               = Command (pre @ Str ''-g'' # post)
           \<and> infs (compile_actions np (a\<lparr>debug := True\<rparr>) ev ! i)
               = infs (compile_actions np (a\<lparr>debug := False\<rparr>) ev ! i)
           \<and> outf (compile_actions np (a\<lparr>debug := True\<rparr>) ev ! i)
               = outf (compile_actions np (a\<lparr>debug := False\<rparr>) ev ! i)
           \<and> chdir (compile_actions np (a\<lparr>debug := True\<rparr>) ev ! i)
               = chdir (compile_actions np (a\<lparr>debug := False\<rparr>) ev ! i)"
  proof (intro allI impI)
    fix i assume "i < length (compile_actions np (a\<lparr>debug := False\<rparr>) ev)"
    then have i: "i < length (cc_odep_paths np ev)"
      by (simp add: compile_actions_def)
    obtain cc ob deps where item: "cc_odep_paths np ev ! i = (cc, ob, deps)"
      by (cases "cc_odep_paths np ev ! i") auto
    from compile_cmd_debug [of np a ev cc ob] obtain pre post where
      f: "compile_cmd np (a\<lparr>debug := False\<rparr>) ev cc ob = pre @ post" and
      t: "compile_cmd np (a\<lparr>debug := True\<rparr>) ev cc ob = pre @ Str ''-g'' # post"
      by blast
    have A: "process (compile_actions np (a\<lparr>debug := False\<rparr>) ev ! i) = Command (pre @ post)"
      using i item f by (simp add: compile_actions_def compile_action_def)
    have B: "process (compile_actions np (a\<lparr>debug := True\<rparr>) ev ! i)
        = Command (pre @ Str ''-g'' # post)"
      using i item t by (simp add: compile_actions_def compile_action_def)
    have C: "infs (compile_actions np (a\<lparr>debug := True\<rparr>) ev ! i)
               = infs (compile_actions np (a\<lparr>debug := False\<rparr>) ev ! i)"
      "outf (compile_actions np (a\<lparr>debug := True\<rparr>) ev ! i)
               = outf (compile_actions np (a\<lparr>debug := False\<rparr>) ev ! i)"
      "chdir (compile_actions np (a\<lparr>debug := True\<rparr>) ev ! i)
               = chdir (compile_actions np (a\<lparr>debug := False\<rparr>) ev ! i)"
      using i item by (simp_all add: compile_actions_def compile_action_def)
    from A B C show "\<exists>pre post.
           process (compile_actions np (a\<lparr>debug := False\<rparr>) ev ! i) = Command (pre @ post)
           \<and> process (compile_actions np (a\<lparr>debug := True\<rparr>) ev ! i)
               = Command (pre @ Str ''-g'' # post)
           \<and> infs (compile_actions np (a\<lparr>debug := True\<rparr>) ev ! i)
               = infs (compile_actions np (a\<lparr>debug := False\<rparr>) ev ! i)
           \<and> outf (compile_actions np (a\<lparr>debug := True\<rparr>) ev ! i)
               = outf (compile_actions np (a\<lparr>debug := False\<rparr>) ev ! i)
           \<and> chdir (compile_actions np (a\<lparr>debug := True\<rparr>) ev ! i)
               = chdir (compile_actions np (a\<lparr>debug := False\<rparr>) ev ! i)"
      by blast
  qed
  from 1 2 3 show ?thesis by blast
qed

lemma compile_actions_ne: "compile_actions np a ev \<noteq> []"
proof -
  have "foldl (\<lambda>d p. AList.update p (f p) d) d ps \<noteq> []" if "d \<noteq> []" for f ps
    and d :: "(path \<times> path \<times> path list) list"
    using that by (induction ps arbitrary: d) auto
  then show ?thesis
    by (simp add: compile_actions_def cc_odep_paths_def)
qed

theorem compile_argv_debug_witness:
  "\<exists>argv. process (hd (compile_actions example_project example_args example_env)) = Command argv
     \<and> count_list argv (Str ''-g'') = 1"
proof -
  let ?xs = "compile_actions example_project example_args example_env"
  have "hd ?xs \<in> set ?xs"
    using compile_actions_ne by simp
  moreover have "\<not> debug example_args"
    by (simp add: example_args_def)
  ultimately show ?thesis
    using compile_argv_debug [of example_project example_args example_env] by auto
qed

subsection \<open>Staging\<close>


lemma split_sep_ne: "split_sep s \<noteq> []"
  by (induction s) (auto split: list.splits)

lemma split_sep_no_sep: "CHR ''/'' \<notin> set t \<Longrightarrow> split_sep t = [t]"
  by (induction t) auto

lemma split_sep_append:
  "CHR ''/'' \<notin> set t \<Longrightarrow> split_sep (s @ t) = butlast (split_sep s) @ [last (split_sep s) @ t]"
proof (induction s)
  case Nil
  then show ?case by (simp add: split_sep_no_sep)
next
  case (Cons c s)
  then show ?case
    using split_sep_ne [of s] by (cases "split_sep s") (auto split: list.splits)
qed

lemma parse_tail_suffix:
  assumes "CHR ''/'' \<notin> set t" "2 \<le> length t"
  shows "parse_tail (s @ t) \<noteq> [] \<and> last (parse_tail (s @ t)) = last (split_sep s) @ t"
proof -
  let ?w = "last (split_sep s) @ t"
  have "?w \<noteq> [] \<and> ?w \<noteq> ''.''"
    using assms(2) by (cases t; cases "tl t") auto
  then show ?thesis
    by (simp add: parse_tail_def split_sep_append [OF assms(1)])
qed

lemma path_name_join1:
  assumes "CHR ''/'' \<notin> set t" "2 \<le> length t"
  shows "suffix t (path_name (join1 p (s @ t)))"
  using parse_tail_suffix [OF assms, of s]
  by (auto simp: join1_def parse_path_def path_name_def suffix_def)

lemma path_name_build:
  assumes "CHR ''/'' \<notin> set t" "2 \<le> length t"
  shows "suffix t (path_name (np_path_build np [s @ t]))"
  using path_name_join1 [OF assms] by (simp add: np_path_build_def np_path_def joinpath_def)

lemma path_name_exe: "path_name (exe_o_path np) = ''cxxrtl''"
  by (simp add: exe_o_path_def np_path_build_def np_path_def joinpath_def join1_def
      parse_tail_def path_name_def)

lemma make_absolute_name:
  assumes "make_absolute wd p = Inr q"
  shows "p_tail q = [] \<or> path_name q = path_name p"
  using assms
  by (auto simp: make_absolute_def relative_to_def path_name_def split: if_splits sum.splits)

lemma suffix_last: "suffix t n \<Longrightarrow> t \<noteq> [] \<Longrightarrow> n \<noteq> [] \<and> last n = last t"
  by (auto simp: suffix_def)

lemma update_subset: "x \<in> set (AList.update k v al) \<Longrightarrow> x = (k, v) \<or> x \<in> set al"
  by (induction al) (auto split: if_splits)

lemma cc_odep_paths_items:
  assumes "(cc, ob, deps) \<in> set (cc_odep_paths np ev)"
  shows "suffix ''.o'' (path_name ob) \<and> (cc = cxxrtl_cc_path np \<or> cc \<in> set (cc_files ev))
         \<and> set deps \<subseteq> set (h_files ev)"
proof -
  have gen: "(cc, ob, deps) \<in> set (foldl (\<lambda>d p. AList.update p (np_path_build np [path_stem p @ ''.o''], h_files ev) d) d0 fs)
    \<Longrightarrow> (cc, ob, deps) \<in> set d0 \<or> (cc \<in> set fs \<and> ob = np_path_build np [path_stem cc @ ''.o''] \<and> deps = h_files ev)"
    for d0 fs
  proof (induction fs arbitrary: d0)
    case Nil
    then show ?case by simp
  next
    case (Cons f fs)
    from Cons.IH [OF Cons.prems [simplified]] show ?case
      by (auto dest: update_subset)
  qed
  from gen [OF assms [unfolded cc_odep_paths_def]] show ?thesis
    by (auto simp: path_name_build)
qed

lemma cc_odep_paths_hd: "\<exists>ob deps rest. cc_odep_paths np ev = (cxxrtl_cc_path np, ob, deps) # rest"
proof -
  have "\<exists>ob deps rest. foldl (\<lambda>d p. AList.update p (f p) d) ((k, v) # d0) fs = (k, ob, deps) # rest"
    for f k v d0 fs
  proof (induction fs arbitrary: v d0)
    case Nil
    then show ?case by (cases v) simp
  next
    case (Cons a fs)
    then show ?case by (cases "f a") auto
  qed
  from this [of "\<lambda>p. (np_path_build np [path_stem p @ ''.o''], h_files ev)"
      "cxxrtl_cc_path np" "(np_path_build np [name np @ ''.o''], [])" "[]" "cc_files ev"]
  show ?thesis unfolding cc_odep_paths_def by simp
qed

lemma staged_sound:
  assumes "staged fin pend es" "i < length es" "es ! i = AddProcess x"
  shows "(\<forall>y \<in> set pend. outf y \<in> set (infs x) \<longrightarrow> (\<exists>k<i. es ! k = Run))
    \<and> (\<forall>y \<in> set (fin @ pend). outf x \<notin> set (infs y))
    \<and> (\<forall>j<i. \<forall>y. es ! j = AddProcess y \<longrightarrow>
          (outf y \<in> set (infs x) \<longrightarrow> (\<exists>k. j < k \<and> k < i \<and> es ! k = Run))
          \<and> outf x \<notin> set (infs y))"
  using assms
proof (induction es arbitrary: fin pend i)
  case Nil
  then show ?case by simp
next
  case (Cons e es)
  consider (add) z where "e = AddProcess z" | (run) "e = Run"
    | (other) "\<forall>y. e \<noteq> AddProcess y" "e \<noteq> Run"
    by (cases e) auto
  then show ?case
  proof cases
  case add
  note prems = Cons.prems [unfolded add]
  show ?thesis
  proof (cases i)
    case 0
    with prems add show ?thesis by auto
  next
    case (Suc i')
    with prems have st: "staged fin (pend @ [z]) es" and i': "i' < length es"
      and x: "es ! i' = AddProcess x"
      by auto
    note IH = Cons.IH [OF st i' x]
    have A: "\<forall>y \<in> set pend. outf y \<in> set (infs x) \<longrightarrow> (\<exists>k<i. (e # es) ! k = Run)"
    proof (intro ballI impI)
      fix y assume "y \<in> set pend" "outf y \<in> set (infs x)"
      with IH obtain k where "k < i'" "es ! k = Run" by auto
      then have "Suc k < i \<and> (e # es) ! Suc k = Run" using Suc by simp
      then show "\<exists>k<i. (e # es) ! k = Run" by blast
    qed
    have B: "\<forall>y \<in> set (fin @ pend). outf x \<notin> set (infs y)"
      using IH by auto
    have C: "\<forall>j<i. \<forall>y. (e # es) ! j = AddProcess y \<longrightarrow>
          (outf y \<in> set (infs x) \<longrightarrow> (\<exists>k. j < k \<and> k < i \<and> (e # es) ! k = Run))
          \<and> outf x \<notin> set (infs y)"
    proof (intro allI impI)
      fix j y assume j: "j < i" and y: "(e # es) ! j = AddProcess y"
      show "(outf y \<in> set (infs x) \<longrightarrow> (\<exists>k. j < k \<and> k < i \<and> (e # es) ! k = Run))
          \<and> outf x \<notin> set (infs y)"
      proof (cases j)
        case 0
        with y add have yz: "y = z" by simp
        have "outf x \<notin> set (infs z)" using IH by auto
        moreover have "\<exists>k. j < k \<and> k < i \<and> (e # es) ! k = Run"
          if "outf z \<in> set (infs x)"
        proof -
          from IH that obtain k where "k < i'" "es ! k = Run" by auto
          then have "j < Suc k \<and> Suc k < i \<and> (e # es) ! Suc k = Run"
            using Suc 0 by simp
          then show ?thesis by blast
        qed
        ultimately show ?thesis using yz by blast
      next
        case (Suc j')
        with j y \<open>i = Suc i'\<close> have j': "j' < i'" and y': "es ! j' = AddProcess y" by auto
        from IH j' y' have n: "outf x \<notin> set (infs y)" by blast
        have "\<exists>k. j < k \<and> k < i \<and> (e # es) ! k = Run"
          if "outf y \<in> set (infs x)"
        proof -
          from IH j' y' that obtain k where "j' < k" "k < i'" "es ! k = Run" by blast
          then have "j < Suc k \<and> Suc k < i \<and> (e # es) ! Suc k = Run"
            using Suc \<open>i = Suc i'\<close> by simp
          then show ?thesis by blast
        qed
        with n show ?thesis by blast
      qed
    qed
    from A B C show ?thesis by blast
  qed
next
  case run
  note prems = Cons.prems [unfolded run]
  show ?thesis
  proof (cases i)
    case 0
    with prems run show ?thesis by simp
  next
    case (Suc i')
    with prems have st: "staged (fin @ pend) [] es" and i': "i' < length es"
      and x: "es ! i' = AddProcess x"
      by auto
    note IH = Cons.IH [OF st i' x]
    have A: "\<forall>y \<in> set pend. outf y \<in> set (infs x) \<longrightarrow> (\<exists>k<i. (e # es) ! k = Run)"
      using Suc run by auto
    have B: "\<forall>y \<in> set (fin @ pend). outf x \<notin> set (infs y)"
      using IH by auto
    have C: "\<forall>j<i. \<forall>y. (e # es) ! j = AddProcess y \<longrightarrow>
          (outf y \<in> set (infs x) \<longrightarrow> (\<exists>k. j < k \<and> k < i \<and> (e # es) ! k = Run))
          \<and> outf x \<notin> set (infs y)"
    proof (intro allI impI)
      fix j y assume j: "j < i" and y: "(e # es) ! j = AddProcess y"
      then obtain j' where jj: "j = Suc j'" using run by (cases j) auto
      with j y Suc have j': "j' < i'" and y': "es ! j' = AddProcess y" by auto
      from IH j' y' have n: "outf x \<notin> set (infs y)" by blast
      have "\<exists>k. j < k \<and> k < i \<and> (e # es) ! k = Run" if "outf y \<in> set (infs x)"
      proof -
        from IH j' y' that obtain k where "j' < k" "k < i'" "es ! k = Run" by blast
        then have "j < Suc k \<and> Suc k < i \<and> (e # es) ! Suc k = Run"
          using Suc jj by simp
        then show ?thesis by blast
      qed
      with n show "(outf y \<in> set (infs x) \<longrightarrow> (\<exists>k. j < k \<and> k < i \<and> (e # es) ! k = Run))
          \<and> outf x \<notin> set (infs y)" by blast
    qed
    from A B C show ?thesis by blast
  qed
next
  case other
  have st: "staged fin pend es"
    using Cons.prems(1) other by (cases e) auto
  show ?thesis
  proof (cases i)
    case 0
    with Cons.prems other show ?thesis by simp
  next
    case (Suc i')
    with Cons.prems have i': "i' < length es" and x: "es ! i' = AddProcess x"
      by auto
    note IH = Cons.IH [OF st i' x]
    have A: "\<forall>y \<in> set pend. outf y \<in> set (infs x) \<longrightarrow> (\<exists>k<i. (e # es) ! k = Run)"
    proof (intro ballI impI)
      fix y assume "y \<in> set pend" "outf y \<in> set (infs x)"
      with IH obtain k where "k < i'" "es ! k = Run" by auto
      then have "Suc k < i \<and> (e # es) ! Suc k = Run" using Suc by simp
      then show "\<exists>k<i. (e # es) ! k = Run" by blast
    qed
    have B: "\<forall>y \<in> set (fin @ pend). outf x \<notin> set (infs y)"
      using IH by auto
    have C: "\<forall>j<i. \<forall>y. (e # es) ! j = AddProcess y \<longrightarrow>
          (outf y \<in> set (infs x) \<longrightarrow> (\<exists>k. j < k \<and> k < i \<and> (e # es) ! k = Run))
          \<and> outf x \<notin> set (infs y)"
    proof (intro allI impI)
      fix j y assume j: "j < i" and y: "(e # es) ! j = AddProcess y"
      then obtain j' where jj: "j = Suc j'" using other by (cases j) auto
      with j y Suc have j': "j' < i'" and y': "es ! j' = AddProcess y" by auto
      from IH j' y' have n: "outf x \<notin> set (infs y)" by blast
      have "\<exists>k. j < k \<and> k < i \<and> (e # es) ! k = Run" if "outf y \<in> set (infs x)"
      proof -
        from IH j' y' that obtain k where "j' < k" "k < i'" "es ! k = Run" by blast
        then have "j < Suc k \<and> Suc k < i \<and> (e # es) ! Suc k = Run"
          using Suc jj by simp
        then show ?thesis by blast
      qed
      with n show "(outf y \<in> set (infs x) \<longrightarrow> (\<exists>k. j < k \<and> k < i \<and> (e # es) ! k = Run))
          \<and> outf x \<notin> set (infs y)" by blast
    qed
    from A B C show ?thesis by blast
  qed
  qed
qed

lemma staged_staging:
  assumes "staged [] [] tr"
  shows "staging tr"
  unfolding staging_def
proof (intro allI impI)
  fix i j x y
  assume h: "i < length tr \<and> j < length tr \<and> i \<noteq> j
        \<and> tr ! i = AddProcess x \<and> tr ! j = AddProcess y \<and> outf y \<in> set (infs x)"
  show "\<exists>k. j < k \<and> k < i \<and> tr ! k = Run"
  proof (cases "j < i")
    case True
    with staged_sound [OF assms, of i x] h show ?thesis by blast
  next
    case False
    with h have "i < j" by simp
    with staged_sound [OF assms, of j y] h have "outf y \<notin> set (infs x)" by blast
    with h show ?thesis by simp
  qed
qed

lemma staged_AddProcess_list:
  assumes "\<forall>x \<in> set xs. \<forall>y \<in> set (pend @ xs). outf y \<notin> set (infs x)"
    and "\<forall>x \<in> set xs. \<forall>y \<in> set (fin @ pend @ xs). outf x \<notin> set (infs y)"
  shows "staged fin pend (map AddProcess xs @ es) = staged fin (pend @ xs) es"
  using assms
proof (induction xs arbitrary: pend)
  case Nil
  then show ?case by simp
next
  case (Cons x xs)
  have "staged fin (pend @ [x]) (map AddProcess xs @ es) = staged fin ((pend @ [x]) @ xs) es"
    by (rule Cons.IH) (use Cons.prems in auto)
  with Cons.prems show ?case by auto
qed

lemma name_ends:
  "suffix ''.o'' n \<Longrightarrow> n \<noteq> [] \<and> last n = CHR ''o''"
  "suffix ''.cc'' n \<Longrightarrow> n \<noteq> [] \<and> last n = CHR ''c''"
  "suffix ''.h'' n \<Longrightarrow> n \<noteq> [] \<and> last n = CHR ''h''"
  "suffix ''.il'' n \<Longrightarrow> n \<noteq> [] \<and> last n = CHR ''l''"
  "suffix ''.ys'' n \<Longrightarrow> n \<noteq> [] \<and> last n = CHR ''s''"
  "suffix ''.zig'' n \<Longrightarrow> n \<noteq> [] \<and> last n = CHR ''g''"
  using suffix_last by fastforce+

lemma path_name_empty: "p_tail p = [] \<Longrightarrow> path_name p = []"
  by (simp add: path_name_def)

lemma compile_action_io:
  assumes "x \<in> set (compile_actions np a ev)" "glob_results ev"
  shows "\<exists>cc ob deps. infs x = Pth cc # map Pth deps \<and> outf x = Pth ob
           \<and> ob \<in> set (cc_o_paths np ev)
           \<and> last (path_name ob) = CHR ''o'' \<and> path_name ob \<noteq> []
           \<and> last (path_name cc) = CHR ''c''
           \<and> (\<forall>d \<in> set deps. last (path_name d) = CHR ''h'')"
proof -
  from assms(1) obtain cc ob deps where item: "(cc, ob, deps) \<in> set (cc_odep_paths np ev)"
    and x: "x = compile_action np a ev (cc, ob, deps)"
    by (auto simp: compile_actions_def)
  from cc_odep_paths_items [OF item] assms(2)
  have "suffix ''.o'' (path_name ob)" "suffix ''.cc'' (path_name cc)"
    "\<forall>d \<in> set deps. suffix ''.h'' (path_name d)"
    using path_name_build [of "''.cc''" np "name np"]
    by (auto simp: glob_results_def cxxrtl_cc_path_def)
  then have "last (path_name ob) = CHR ''o'' \<and> path_name ob \<noteq> []"
    "last (path_name cc) = CHR ''c''"
    "\<forall>d \<in> set deps. last (path_name d) = CHR ''h''"
    using name_ends by blast+
  moreover have "ob \<in> set (cc_o_paths np ev)"
    using item by (force simp: cc_o_paths_def)
  ultimately show ?thesis
    using x by (simp add: compile_action_def) blast
qed

lemma rtlil_action_io:
  assumes "make_absolute (cwd ev) (np_path_build np [name np @ ''-cxxrtl.ys'']) = Inr ys"
  shows "infs (rtlil_action np ys) = [Pth (il_path np), Pth ys]"
    "outf (rtlil_action np ys) = Pth (cxxrtl_cc_path np)"
    "suffix ''.il'' (path_name (il_path np))"
    "last (path_name (il_path np)) = CHR ''l'' \<and> path_name (il_path np) \<noteq> []"
    "last (path_name (cxxrtl_cc_path np)) = CHR ''c'' \<and> path_name (cxxrtl_cc_path np) \<noteq> []"
    "path_name ys = [] \<or> last (path_name ys) = CHR ''s''"
proof -
  show "infs (rtlil_action np ys) = [Pth (il_path np), Pth ys]"
    "outf (rtlil_action np ys) = Pth (cxxrtl_cc_path np)"
    by (simp_all add: rtlil_action_def)
  show il: "suffix ''.il'' (path_name (il_path np))"
    using path_name_build [of "''.il''" np "name np"] by (simp add: il_path_def)
  then show "last (path_name (il_path np)) = CHR ''l'' \<and> path_name (il_path np) \<noteq> []"
    using name_ends by blast
  have "suffix ''.cc'' (path_name (cxxrtl_cc_path np))"
    using path_name_build [of "''.cc''" np "name np"] by (simp add: cxxrtl_cc_path_def)
  then show "last (path_name (cxxrtl_cc_path np)) = CHR ''c''
      \<and> path_name (cxxrtl_cc_path np) \<noteq> []"
    using name_ends by blast
  have "suffix ''.ys'' (path_name (np_path_build np [name np @ ''-cxxrtl.ys'']))"
    using path_name_build [of "''.ys''" np "name np @ ''-cxxrtl''"] by simp
  then have "last (path_name (np_path_build np [name np @ ''-cxxrtl.ys''])) = CHR ''s''"
    using name_ends by blast
  with make_absolute_name [OF assms] show "path_name ys = [] \<or> last (path_name ys) = CHR ''s''"
    by (auto simp: path_name_empty)
qed

lemma link_action_io:
  assumes "link_action np a ev = Inr l" "glob_results ev"
  shows "outf l = Str zig_outf \<or> outf l = Pth (exe_o_path np)"
    "set (map Pth (cc_o_paths np ev)) \<subseteq> set (infs l)"
    "\<forall>i \<in> set (infs l). \<exists>p. i = Pth p
        \<and> (last (path_name p) = CHR ''o'' \<or> last (path_name p) = CHR ''g'')"
proof -
  have o: "\<forall>p \<in> set (cc_o_paths np ev). last (path_name p) = CHR ''o''"
    using cc_odep_paths_items [of _ _ _ np ev] name_ends(1)
    by (fastforce simp: cc_o_paths_def)
  have z: "\<forall>p \<in> set (zig_files ev). last (path_name p) = CHR ''g''"
    using assms(2) name_ends(6) by (auto simp: glob_results_def)
  have i: "infs l = map Pth (cc_o_paths np ev)
      @ map Pth (if uses_zig (platform ev) then zig_files ev else [])"
    using assms(1) by (auto simp: link_action_def split: if_splits sum.splits)
  show "outf l = Str zig_outf \<or> outf l = Pth (exe_o_path np)"
    using assms(1) by (auto simp: link_action_def split: if_splits sum.splits)
  show "set (map Pth (cc_o_paths np ev)) \<subseteq> set (infs l)"
    unfolding i by auto
  show "\<forall>i \<in> set (infs l). \<exists>p. i = Pth p
        \<and> (last (path_name p) = CHR ''o'' \<or> last (path_name p) = CHR ''g'')"
    unfolding i using o z by auto
qed

lemma exe_name:
  "last (path_name (exe_o_path np)) = CHR ''l''" "path_name (exe_o_path np) \<noteq> []"
  "\<not> suffix ''.il'' (path_name (exe_o_path np))"
  by (simp_all add: path_name_exe suffix_to_prefix)

text \<open>
  C4. A driver run that raises nothing obeys the staging discipline, when \<open>glob\<close> returns
  only paths whose names match its pattern. Its actions form
  three batches, each followed by \<open>cr.run()\<close>: the RTLIL conversion, the compile
  actions, the link action. The conversion's output (the generated \<open>.cc\<close> file) is an
  input of a compile action and of no action of the first or third batch; every compile
  action's output is an input of the link action and of no action of the first two
  batches; the link action's output is an input of no earlier action. So whenever an
  action's input is another action's output, the producer's batch has been run before
  the consumer is registered (\<open>staging\<close>).
\<close>

theorem staging_discipline:
  assumes "main np a ev = Inr tr" and "glob_results ev"
  shows "staging tr
    \<and> (\<exists>r l. batches [] tr = [[r], compile_actions np a ev, [l]]
         \<and> outf r \<notin> set (infs r)
         \<and> (\<exists>c \<in> set (compile_actions np a ev). outf r \<in> set (infs c))
         \<and> outf r \<notin> set (infs l)
         \<and> (\<forall>c \<in> set (compile_actions np a ev).
               outf c \<notin> set (infs r)
               \<and> (\<forall>c' \<in> set (compile_actions np a ev). outf c \<notin> set (infs c'))
               \<and> outf c \<in> set (infs l))
         \<and> outf l \<notin> set (infs r)
         \<and> (\<forall>c \<in> set (compile_actions np a ev). outf l \<notin> set (infs c)))"
proof -
  let ?CA = "compile_actions np a ev"
  from main_Inr [OF assms(1)] obtain el l where
    el: "elaboration np ev = Inr el" and l: "link_action np a ev = Inr l" and
    tr: "tr = [FindYosys, Makedirs (np_path_build np []), NewRunner (force a)] @ el
                  @ map AddProcess ?CA
                  @ [JsonDump (np_path_build np [''compile_commands.json''])
                       (compile_commands_json np (cr_compile_commands ev)), Run]
                  @ [AddProcess l, Run]
                  @ (if uses_zig (platform ev) then [Copy (Str zig_outf) (exe_o_path np)] else [])
                  @ running np a"
    by blast
  from elaboration_Inr [OF el] obtain ys il cc where
    ys: "make_absolute (cwd ev) (np_path_build np [name np @ ''-cxxrtl.ys'']) = Inr ys" and
    el': "el = [WriteFile (il_path np) (rtlil_text ev), WriteFile ys (yosys_script il cc),
                AddProcess (rtlil_action np ys), Run]"
    by blast
  let ?r = "rtlil_action np ys"
  note r = rtlil_action_io [OF ys]
  note li = link_action_io [OF l assms(2)]
  note ca = compile_action_io [OF _ assms(2), of _ np a]
  have rr: "outf ?r \<notin> set (infs ?r)"
    using r by auto
  have rl: "outf ?r \<notin> set (infs l)"
    using r li(3) by auto
  have rc: "\<exists>c \<in> set ?CA. outf ?r \<in> set (infs c)"
  proof -
    from cc_odep_paths_hd [of np ev] obtain ob deps rest where
      "cc_odep_paths np ev = (cxxrtl_cc_path np, ob, deps) # rest" by blast
    then have "compile_action np a ev (cxxrtl_cc_path np, ob, deps) \<in> set ?CA"
      by (simp add: compile_actions_def)
    moreover have "outf ?r \<in> set (infs (compile_action np a ev (cxxrtl_cc_path np, ob, deps)))"
      by (simp add: compile_action_def rtlil_action_def)
    ultimately show ?thesis by blast
  qed
  have cr: "outf c \<notin> set (infs ?r)" if "c \<in> set ?CA" for c
    using ca [OF that] r by auto
  have cc': "outf c \<notin> set (infs c')" if "c \<in> set ?CA" "c' \<in> set ?CA" for c c'
    using ca [OF that(1)] ca [OF that(2)] by auto
  have cl: "outf c \<in> set (infs l)" if "c \<in> set ?CA" for c
    using ca [OF that] li(2) by auto
  have lr: "outf l \<notin> set (infs ?r)"
    using li(1) r exe_name [of np] by auto
  have lc: "outf l \<notin> set (infs c)" if "c \<in> set ?CA" for c
    using ca [OF that] li(1) exe_name [of np] by auto
  have b: "batches [] tr = [[?r], ?CA, [l]]"
    unfolding tr el' by (simp add: batches_AddProcess batches_running)
  have s1: "staged [?r] [] (map AddProcess ?CA @ es) = staged [?r] ([] @ ?CA) es" for es
    by (rule staged_AddProcess_list) (use cr cc' in auto)
  have s2: "staged fin pend ((if uses_zig (platform ev) then [Copy (Str zig_outf) (exe_o_path np)] else [])
                  @ running np a)" for fin pend
    by (simp add: running_def)
  have "staged [] [] tr"
    unfolding tr el' using s1 s2 lr lc by simp
  then have "staging tr"
    by (rule staged_staging)
  with b rr rc rl cr cc' cl lr lc show ?thesis by blast
qed

lemma example_glob_results: "glob_results (example_env\<lparr>cc_files := fs\<rparr>) \<longleftrightarrow>
    (\<forall>p \<in> set fs. suffix ''.cc'' (path_name p))"
  by (simp add: glob_results_def example_env_def path_name_def suffix_to_prefix)

theorem staging_discipline_witness:
  "\<exists>tr. main example_project example_args example_env = Inr tr
      \<and> staging tr \<and> length (batches [] tr) = 3"
proof -
  obtain tr where tr: "main example_project example_args example_env = Inr tr"
    using example_main by blast
  have "glob_results (example_env\<lparr>cc_files := cc_files example_env\<rparr>)"
    unfolding example_glob_results
    by (simp add: example_env_def path_name_def suffix_to_prefix)
  then have g: "glob_results example_env" by simp
  from staging_discipline [OF tr g] have "staging tr \<and> length (batches [] tr) = 3"
    by auto
  with tr show ?thesis by blast
qed

section \<open>Properties of the command runner\<close>



lemma isStale_unforced: "isStale fs rr (a\<lparr>forceRun := False\<rparr>) \<Longrightarrow> isStale fs rr a"
  by (auto simp: isStale_def split: option.splits)


lemma isStale_cong:
  assumes "\<forall>p \<in> insert (output_path a) (set (inputs a)). fs1 p = fs2 p" "rr1 (output_path a) = rr2 (output_path a)"
  shows "isStale fs1 rr1 a = isStale fs2 rr2 a"
proof -
  have o: "fs1 (output_path a) = fs2 (output_path a)" using assms(1) by simp
  have i: "\<And>i. i \<in> set (inputs a) \<Longrightarrow> fs1 i = fs2 i" using assms(1) by simp
  show ?thesis
    unfolding isStale_def o assms(2)
    by (auto simp: i split: option.splits cong: if_cong)
qed

lemma run_stage_frame:
  assumes "run_stage ex as fs rr = (exd, f, fs', rr')"
    and "\<forall>a \<in> set as. writes_only_output ex a"
    and "p \<notin> output_path ` set as"
  shows "fs' p = fs p \<and> rr' p = rr p"
  using assms
proof (induction as arbitrary: fs rr exd f)
  case Nil
  then show ?case by simp
next
  case (Cons a as)
  show ?case
  proof (cases "isStale fs rr a")
    case False
    with Cons.prems have "run_stage ex as fs rr = (exd, f, fs', rr')" by simp
    from Cons.IH [OF this] Cons.prems show ?thesis by simp
  next
    case True
    show ?thesis
    proof (cases "find (\<lambda>i. fs i = None) (inputs a)")
      case (Some i)
      with True Cons.prems show ?thesis by simp
    next
      case None
      obtain ok fs1 where e: "ex a fs = (ok, fs1)" by (cases "ex a fs")
      have fr: "fs1 p = fs p"
        using e Cons.prems(2,3) by (auto simp: writes_only_output_def dest!: spec [of _ fs])
      show ?thesis
      proof (cases "ok \<and> fs1 (output_path a) \<noteq> None")
        case False
        with True None e Cons.prems(1) fr show ?thesis by (auto split: if_splits)
      next
        case ok: True
        obtain exd1 where
          r: "run_stage ex as fs1 (rr(output_path a \<mapsto> record_success fs1 a)) = (exd1, f, fs', rr')"
          using True None e ok Cons.prems(1) by (auto split: prod.splits)
        from Cons.IH [OF r] Cons.prems fr show ?thesis by auto
      qed
    qed
  qed
qed

lemma fresh_after_success:
  assumes "fs1 (output_path a) \<noteq> None" and "up_to_date fs1 a"
  shows "\<not> isStale fs1 (rr(output_path a \<mapsto> record_success fs1 a)) (a\<lparr>forceRun := False\<rparr>)"
  using assms by (auto simp: isStale_def record_success_def up_to_date_def split: option.splits)

lemma run_stage_fresh:
  assumes "run_stage ex as fs rr = (exd, None, fs', rr')"
    and "independent as"
    and "\<forall>a \<in> set as. writes_only_output ex a"
    and "\<forall>a \<in> set as. leaves_up_to_date ex a"
  shows "\<forall>a \<in> set as. \<not> isStale fs' rr' (a\<lparr>forceRun := False\<rparr>)"
  using assms
proof (induction as arbitrary: fs rr exd)
  case Nil
  then show ?case by simp
next
  case (Cons a as)
  let ?a0 = "a\<lparr>forceRun := False\<rparr>"
  have frame: "\<forall>b \<in> set as. writes_only_output ex b"
    using Cons.prems(3) by simp
  have out: "output_path a \<notin> output_path ` set as"
    using Cons.prems(2) by (simp add: independent_def)
  have ins: "\<forall>i \<in> set (inputs a). i \<notin> output_path ` set as"
    using Cons.prems(2) by (auto simp: independent_def)
  have ind: "independent as"
    using Cons.prems(2) by (simp add: independent_def)
  have keep: "isStale fs' rr' ?a0 = isStale fsx rrx ?a0"
    if "run_stage ex as fsx rrx = (exdx, None, fs', rr')" for fsx rrx exdx
  proof (rule isStale_cong)
    show "\<forall>p \<in> insert (output_path ?a0) (set (inputs ?a0)). fs' p = fsx p"
      using run_stage_frame [OF that frame] out ins by auto
    show "rr' (output_path ?a0) = rrx (output_path ?a0)"
      using run_stage_frame [OF that frame] out by auto
  qed
  have rest: "\<forall>b \<in> set as. \<not> isStale fs' rr' (b\<lparr>forceRun := False\<rparr>)"
    if "run_stage ex as fsx rrx = (exdx, None, fs', rr')" for fsx rrx exdx
    by (rule Cons.IH [OF that ind]) (use Cons.prems in auto)
  show ?case
  proof (cases "isStale fs rr a")
    case False
    with Cons.prems(1) have r: "run_stage ex as fs rr = (exd, None, fs', rr')" by simp
    from False have "\<not> isStale fs rr ?a0" using isStale_unforced by blast
    with keep [OF r] rest [OF r] show ?thesis by simp
  next
    case True
    obtain ok fs1 where e: "ex a fs = (ok, fs1)" by (cases "ex a fs")
    from True Cons.prems(1) e have nf: "find (\<lambda>i. fs i = None) (inputs a) = None"
      by (auto split: option.splits)
    from True Cons.prems(1) e nf have ok: "ok" and o1: "fs1 (output_path a) \<noteq> None"
      by (auto split: if_splits)
    from True Cons.prems(1) e nf ok o1 obtain exd1 where
      r: "run_stage ex as fs1 (rr(output_path a \<mapsto> record_success fs1 a)) = (exd1, None, fs', rr')"
      by (auto split: prod.splits)
    have "up_to_date fs1 a"
      using Cons.prems(4) e ok by (auto simp: leaves_up_to_date_def dest!: spec [of _ fs])
    from fresh_after_success [OF o1 this]
    have "\<not> isStale fs1 (rr(output_path a \<mapsto> record_success fs1 a)) ?a0" .
    with keep [OF r] rest [OF r] show ?thesis by simp
  qed
qed

lemma run_stage_all_fresh:
  "\<forall>a \<in> set as. \<not> isStale fs rr a \<Longrightarrow> run_stage ex as fs rr = ([], None, fs, rr)"
  by (induction as) auto



lemma run_Pair:
  "run ex cr fs = (exd, f, fs', cr') \<longleftrightarrow>
     (\<exists>rr'. run_stage ex (stage cr) fs (run_record cr) = (exd, f, fs', rr')
        \<and> cr' = cr\<lparr>stage := [], run_record := rr'\<rparr>)"
  by (auto simp: run_def split: prod.splits)

text \<open>
  C7 as the specification's rules have it. Let a stage be run and the run succeed. If
  no action of the stage is forced, the actions are independent, and executing an
  action changes only its output and leaves it no older than its inputs, then every
  action of the stage is Fresh afterwards, and running the same stage again on the
  unchanged file system executes no action and changes nothing.
\<close>

theorem second_run_executes_nothing:
  assumes "run ex cr fs = (exd, None, fs', cr')"
    and "\<forall>a \<in> set (stage cr). \<not> forceRun a"
    and "independent (stage cr)"
    and "\<forall>a \<in> set (stage cr). writes_only_output ex a"
    and "\<forall>a \<in> set (stage cr). leaves_up_to_date ex a"
  shows "(\<forall>a \<in> set (stage cr). \<not> isStale fs' (run_record cr') a)
    \<and> run_twice ex cr fs = (None, [], None, fs', cr')"
proof -
  from assms(1) obtain rr' where
    r: "run_stage ex (stage cr) fs (run_record cr) = (exd, None, fs', rr')"
    and c: "cr' = cr\<lparr>stage := [], run_record := rr'\<rparr>"
    unfolding run_Pair by blast
  have "\<forall>a \<in> set (stage cr). \<not> isStale fs' rr' (a\<lparr>forceRun := False\<rparr>)"
    by (rule run_stage_fresh [OF r assms(3-5)])
  moreover have "a\<lparr>forceRun := False\<rparr> = a" if "a \<in> set (stage cr)" for a
    using assms(2) that by simp
  ultimately have fresh: "\<forall>a \<in> set (stage cr). \<not> isStale fs' rr' a" by simp
  then have "run_stage ex (stage cr) fs' rr' = ([], None, fs', rr')"
    by (rule run_stage_all_fresh)
  then have "run ex (cr'\<lparr>stage := stage cr\<rparr>) fs' = ([], None, fs', cr')"
    by (simp add: run_def c)
  with assms(1) fresh c show ?thesis
    by (simp add: run_twice_def run_then_def)
qed

lemma newest_ge: "i \<in> set ps \<Longrightarrow> fs i = Some m \<Longrightarrow> mtime m \<le> newest fs ps"
  unfolding newest_def by (induction ps) (auto simp: max_def)

lemma produce_ok: "writes_only_output produce a" "leaves_up_to_date produce a"
proof -
  show "writes_only_output produce a"
    by (simp add: writes_only_output_def produce_def)
  show "leaves_up_to_date produce a"
    unfolding leaves_up_to_date_def up_to_date_def produce_def
    using newest_ge [of _ "inputs a"] by (fastforce split: if_splits)
qed

text \<open>
  Without the condition on \<open>forceRun\<close> the second run is not empty: a forced action
  is Stale whatever the Run Record holds, so it is executed again.
\<close>

theorem forced_second_run_counterexample:
  "fst (run_twice produce (example_runner True) example_fs) = None
   \<and> fst (snd (run_twice produce (example_runner True) example_fs))
       = [registered True example_compile]"
  by (simp add: run_twice_def run_then_def run_def isStale_def produce_def example_runner_def registered_def
      example_compile_def example_fs_def)

theorem second_run_executes_nothing_witness:
  "fst (run produce (example_runner False) example_fs) = [registered False example_compile]
   \<and> fst (snd (run_twice produce (example_runner False) example_fs)) = []"
proof -
  let ?cr = "example_runner False"
  obtain exd f fs' cr' where r: "run produce ?cr example_fs = (exd, f, fs', cr')"
    by (cases "run produce ?cr example_fs")
  have e: "exd = [registered False example_compile]" and f: "f = None"
    using r by (auto simp: run_def isStale_def produce_def example_runner_def registered_def
      example_compile_def example_fs_def)
  have st: "stage ?cr = [registered False example_compile]"
    by (simp add: example_runner_def)
  have ind: "independent (stage ?cr)"
    by (simp add: st independent_def registered_def example_compile_def)
  have nf: "\<forall>a \<in> set (stage ?cr). \<not> forceRun a"
    by (simp add: st registered_def)
  from second_run_executes_nothing [OF r [unfolded f] nf ind] produce_ok
  have "run_twice produce ?cr example_fs = (None, [], None, fs', cr')"
    by blast
  with r e show ?thesis by simp
qed





end
